theory Spec2Isabelle
  imports Main "HOL-Library.AList"
begin

section \<open>Python values, errors and objects\<close>

text \<open>
  The classes of \<^verbatim>\<open>np_classes\<close> in \<^verbatim>\<open>Component.should_update\<close>:
  \<^verbatim>\<open>(np.ndarray, pd.Series, pd.DataFrame, pd.Index)\<close>.
\<close>

datatype np_class = Ndarray | Series | DataFrame | Index

text \<open>
  The value of a float or of an array element: \<open>Dyadic m e\<close> is the number
  \<open>m * 2 ^ e\<close> (every finite double is one), \<open>Infty True\<close> and \<open>Infty False\<close> are
  \<^verbatim>\<open>inf\<close> and \<^verbatim>\<open>-inf\<close>, and \<open>NaN\<close> is not a number. Only equality and the test
  against zero are used, so no rounding is involved.
\<close>

datatype pynum = Dyadic int int | Infty bool | NaN

text \<open>IEEE equality: NaN is equal to nothing, itself included.\<close>

fun num_eq :: "pynum \<Rightarrow> pynum \<Rightarrow> bool" where
  "num_eq (Dyadic m e) (Dyadic n f) =
     (if f \<le> e then m * 2 ^ nat (e - f) = n else m = n * 2 ^ nat (f - e))"
| "num_eq (Infty a) (Infty b) = (a = b)"
| "num_eq x y = False"

fun num_nonzero :: "pynum \<Rightarrow> bool" where
  "num_nonzero (Dyadic m e) = (m \<noteq> 0)"
| "num_nonzero x = True"

text \<open>
  The Python values that props and state hold. A component is a reference (its identity,
  the address of the object in the heap below), so that two values naming the same
  component alias it. A dictionary with string keys is an association list in insertion
  order, as Python's \<^verbatim>\<open>dict\<close> iterates. A numeric array is its class and its elements
  (one dimension). A float and an array carry the address of the object besides its value:
  the comparison of two lists or dictionaries takes elements that are the same object as
  equal without comparing them, which shows for the values that are not equal to
  themselves, a NaN and an array.
\<close>

datatype pyval =
    VNone
  | VBool bool
  | VInt int
  | VFloat nat pynum
  | VStr string
  | VList "pyval list"
  | VDict "(string \<times> pyval) list"
  | VArr nat np_class "pynum list"
  | VComp nat

type_synonym kv = "(string \<times> pyval) list"

text \<open>
  The exceptions the modelled code raises or lets through. All of them are instances of
  Python's \<^verbatim>\<open>Exception\<close>, which is what \<^verbatim>\<open>except Exception\<close> in the source catches;
  \<^verbatim>\<open>Raised\<close> is an exception of the caller's own code (the \<^verbatim>\<open>ZeroDivisionError\<close> and
  the \<^verbatim>\<open>ValueError("I am broken")\<close> of the tests).
\<close>

datatype error =
    KeyError
  | ValueError string
  | AttributeError
  | TypeError
  | RecursionError
  | Raised string

text \<open>
  An object: its class, whether the class derives from \<^verbatim>\<open>BaseComponent\<close>, the data
  attributes its class defines (\<^verbatim>\<open>value = 0\<close> in a class body), its instance dictionary,
  and the two attributes \<^verbatim>\<open>Component\<close> reads with \<^verbatim>\<open>super().__getattribute__\<close>:
  \<^verbatim>\<open>_render_changes_context\<close> (None, or the pending dictionary of the active scope) and
  \<^verbatim>\<open>_ignored_variables\<close>. Attribute names range over the other data attributes;
  properties and methods of the class are not attributes of the model.
\<close>

record pyobj =
  cls :: string
  base :: bool
  cattrs :: "string \<rightharpoonup> pyval"
  attrs :: "string \<rightharpoonup> pyval"
  rcc :: "kv option"
  ign :: "string set"

type_synonym heap = "nat \<Rightarrow> pyobj"

text \<open>\<^verbatim>\<open>object.__getattribute__\<close>: the instance dictionary, then the class.\<close>

definition object_getattribute :: "pyobj \<Rightarrow> string \<Rightarrow> pyval option" where
  "object_getattribute ob k = (case attrs ob k of Some v \<Rightarrow> Some v | None \<Rightarrow> cattrs ob k)"

text \<open>\<^verbatim>\<open>object.__setattr__\<close> writes the instance dictionary.\<close>

definition object_setattr :: "pyobj \<Rightarrow> string \<Rightarrow> pyval \<Rightarrow> pyobj" where
  "object_setattr ob k v = ob\<lparr>attrs := (attrs ob)(k \<mapsto> v)\<rparr>"

text \<open>
  \<^verbatim>\<open>object.__delattr__\<close> deletes from the instance dictionary and raises
  \<^verbatim>\<open>AttributeError\<close> when the name is not there.
\<close>

definition object_delattr :: "pyobj \<Rightarrow> string \<Rightarrow> error + pyobj" where
  "object_delattr ob k =
     (if k \<in> dom (attrs ob) then Inr (ob\<lparr>attrs := (attrs ob)(k := None)\<rparr>) else Inl AttributeError)"

text \<open>
  \<^verbatim>\<open>Component.__getattribute__\<close> (component.py 228-233): a name written in the active
  scope and not ignored reads its pending value.
\<close>

definition Component_getattribute :: "pyobj \<Rightarrow> string \<Rightarrow> pyval option" where
  "Component_getattribute ob k =
     (case rcc ob of
        Some changes_context \<Rightarrow>
          (if k \<in> fst ` set changes_context \<and> k \<notin> ign ob then map_of changes_context k
           else object_getattribute ob k)
      | None \<Rightarrow> object_getattribute ob k)"

text \<open>
  \<^verbatim>\<open>Component.__setattr__\<close> (component.py 236-242): in an active scope a name that is
  not ignored is written to the pending dictionary, any other write goes to the object.
\<close>

definition Component_setattr :: "pyobj \<Rightarrow> string \<Rightarrow> pyval \<Rightarrow> pyobj" where
  "Component_setattr ob k v =
     (case rcc ob of
        Some changes_context \<Rightarrow>
          (if k \<notin> ign ob then ob\<lparr>rcc := Some (AList.update k v changes_context)\<rparr>
           else object_setattr ob k v)
      | None \<Rightarrow> object_setattr ob k v)"

text \<open>The builtins \<^verbatim>\<open>hasattr\<close>, \<^verbatim>\<open>getattr\<close> and \<^verbatim>\<open>setattr\<close> on an object of the heap.\<close>

definition py_hasattr :: "heap \<Rightarrow> nat \<Rightarrow> string \<Rightarrow> bool" where
  "py_hasattr h c k = (Component_getattribute (h c) k \<noteq> None)"

definition py_getattr :: "heap \<Rightarrow> nat \<Rightarrow> string \<Rightarrow> error + pyval" where
  "py_getattr h c k =
     (case Component_getattribute (h c) k of None \<Rightarrow> Inl AttributeError | Some v \<Rightarrow> Inr v)"

definition py_setattr :: "heap \<Rightarrow> nat \<Rightarrow> string \<Rightarrow> pyval \<Rightarrow> heap" where
  "py_setattr h c k v = h(c := Component_setattr (h c) k v)"

text \<open>
  Truth value of a Python value, as \<^verbatim>\<open>if a\<close> tests it. \<^verbatim>\<open>Component\<close> defines neither
  \<^verbatim>\<open>__bool__\<close> nor \<^verbatim>\<open>__len__\<close>, so a component is true. A float is true unless it
  is zero (NaN is true). An array of more than one element, and any pandas container, has
  no truth value: numpy and pandas raise \<^verbatim>\<open>ValueError\<close>.
\<close>

fun py_truthy :: "pyval \<Rightarrow> error + bool" where
  "py_truthy VNone = Inr False"
| "py_truthy (VBool b) = Inr b"
| "py_truthy (VInt i) = Inr (i \<noteq> 0)"
| "py_truthy (VFloat a x) = Inr (num_nonzero x)"
| "py_truthy (VStr s) = Inr (s \<noteq> [])"
| "py_truthy (VList xs) = Inr (xs \<noteq> [])"
| "py_truthy (VDict d) = Inr (d \<noteq> [])"
| "py_truthy (VArr a Ndarray []) = Inr False"
| "py_truthy (VArr a Ndarray [x]) = Inr (num_nonzero x)"
| "py_truthy (VArr a c xs) = Inl (ValueError ''The truth value is ambiguous'')"
| "py_truthy (VComp c) = Inr True"

section \<open>PropsDict (component.py 10-65)\<close>

datatype propsdict = PropsDict kv

fun PropsDict_d :: "propsdict \<Rightarrow> kv" where
  "PropsDict_d (PropsDict d) = d"

definition PropsDict_getitem :: "propsdict \<Rightarrow> string \<Rightarrow> error + pyval" where
  "PropsDict_getitem p key =
     (case map_of (PropsDict_d p) key of None \<Rightarrow> Inl KeyError | Some v \<Rightarrow> Inr v)"

text \<open>
  \<^verbatim>\<open>__setitem__\<close> and \<^verbatim>\<open>__setattr__\<close> raise and write nothing. The result is the error
  and the view after the call.
\<close>

definition PropsDict_setitem :: "propsdict \<Rightarrow> string \<Rightarrow> pyval \<Rightarrow> (error + unit) \<times> propsdict" where
  "PropsDict_setitem p key v = (Inl (ValueError ''Props are immutable''), p)"

definition PropsDict_setattr :: "propsdict \<Rightarrow> string \<Rightarrow> pyval \<Rightarrow> (error + unit) \<times> propsdict" where
  "PropsDict_setattr p key v = (Inl (ValueError ''Props are immutable''), p)"

definition PropsDict_keys :: "propsdict \<Rightarrow> string list" where
  "PropsDict_keys p = map fst (PropsDict_d p)"

definition PropsDict_items :: "propsdict \<Rightarrow> kv" where
  "PropsDict_items p = PropsDict_d p"

definition PropsDict_len :: "propsdict \<Rightarrow> nat" where
  "PropsDict_len p = length (PropsDict_d p)"

definition PropsDict_contains :: "propsdict \<Rightarrow> string \<Rightarrow> bool" where
  "PropsDict_contains p k = (k \<in> fst ` set (PropsDict_d p))"

definition PropsDict_getattr :: "propsdict \<Rightarrow> string \<Rightarrow> error + pyval" where
  "PropsDict_getattr p key =
     (if key \<in> fst ` set (PropsDict_d p)
      then (case map_of (PropsDict_d p) key of None \<Rightarrow> Inl KeyError | Some v \<Rightarrow> Inr v)
      else Inl KeyError)"

text \<open>
  A fresh instance of a class: nothing in its dictionary, and the class defaults
  \<^verbatim>\<open>_render_changes_context = None\<close> and \<^verbatim>\<open>_ignored_variables = set()\<close>
  (component.py 162-163).
\<close>

definition new_object :: "string \<Rightarrow> bool \<Rightarrow> pyobj" where
  "new_object name b =
     \<lparr>cls = name, base = b, cattrs = Map.empty, attrs = Map.empty, rcc = None, ign = {}\<rparr>"

section \<open>Component (component.py 68-348)\<close>

text \<open>
  \<^verbatim>\<open>__init__\<close> (component.py 165-168). A subclass decorated with
  \<^verbatim>\<open>register_props\<close> has registered its props before it calls \<^verbatim>\<open>super().__init__()\<close>,
  which is why the constructor looks for \<^verbatim>\<open>_props\<close> first.
\<close>

definition Component_init :: "pyobj \<Rightarrow> pyobj" where
  "Component_init ob =
     (let ob1 = ob\<lparr>ign := {}\<rparr>
      in if Component_getattribute ob1 ''_props'' \<noteq> None then ob1
         else Component_setattr ob1 ''_props'' (VDict [(''children'', VList [])]))"

text \<open>
  \<^verbatim>\<open>register_props\<close> (component.py 170-178), for a mapping argument. The default it
  stores under \<^verbatim>\<open>children\<close> is the source's \<^verbatim>\<open>{}\<close>, an empty dictionary.
\<close>

definition register_props :: "pyobj \<Rightarrow> kv \<Rightarrow> pyobj" where
  "register_props ob props =
     (let props1 = (if ''children'' \<notin> fst ` set props
                    then AList.update ''children'' (VDict []) props else props)
      in Component_setattr ob ''_props'' (VDict props1))"

definition set_key :: "pyobj \<Rightarrow> pyval \<Rightarrow> pyobj" where
  "set_key ob k = Component_setattr ob ''_key'' k"

text \<open>
  The property \<^verbatim>\<open>props\<close> wraps \<^verbatim>\<open>self._props\<close> in a PropsDict; a \<^verbatim>\<open>_props\<close> that is
  not a dictionary fails when the view is first used, here when it is made.
\<close>

definition Component_props :: "pyobj \<Rightarrow> error + propsdict" where
  "Component_props ob =
     (case Component_getattribute ob ''_props'' of
        None \<Rightarrow> Inl AttributeError
      | Some (VDict d) \<Rightarrow> Inr (PropsDict d)
      | Some _ \<Rightarrow> Inl TypeError)"

definition Component_children :: "pyobj \<Rightarrow> error + pyval" where
  "Component_children ob =
     (case Component_props ob of Inl e \<Rightarrow> Inl e | Inr p \<Rightarrow> PropsDict_getattr p ''children'')"

text \<open>
  \<^verbatim>\<open>__call__\<close> (component.py 319-322). The comprehension \<^verbatim>\<open>[a for a in args if a]\<close>
  tests each argument in turn and stops at the first one that has no truth value.
\<close>

fun truthy_args :: "pyval list \<Rightarrow> error + pyval list" where
  "truthy_args [] = Inr []"
| "truthy_args (a # args) =
     (case py_truthy a of
        Inl e \<Rightarrow> Inl e
      | Inr b \<Rightarrow>
          (case truthy_args args of
             Inl e \<Rightarrow> Inl e
           | Inr rest \<Rightarrow> Inr (if b then a # rest else rest)))"

text \<open>
  \<^verbatim>\<open>self._props["children"] = children\<close> updates, in place, the dictionary that reading
  \<^verbatim>\<open>self._props\<close> finds: the pending one of an active scope, the instance's, or the
  class's.
\<close>

definition set_props_item :: "pyobj \<Rightarrow> string \<Rightarrow> pyval \<Rightarrow> error + pyobj" where
  "set_props_item ob key v =
     (let pending = (case rcc ob of
                       Some cc \<Rightarrow> ''_props'' \<in> fst ` set cc \<and> ''_props'' \<notin> ign ob
                     | None \<Rightarrow> False)
      in case Component_getattribute ob ''_props'' of
           None \<Rightarrow> Inl AttributeError
         | Some (VDict d) \<Rightarrow>
             (let d1 = VDict (AList.update key v d)
              in if pending then Inr (ob\<lparr>rcc := map_option (AList.update ''_props'' d1) (rcc ob)\<rparr>)
                 else if ''_props'' \<in> dom (attrs ob) then Inr (ob\<lparr>attrs := (attrs ob)(''_props'' \<mapsto> d1)\<rparr>)
                 else Inr (ob\<lparr>cattrs := (cattrs ob)(''_props'' \<mapsto> d1)\<rparr>))
         | Some _ \<Rightarrow> Inl TypeError)"

definition Component_call :: "heap \<Rightarrow> nat \<Rightarrow> pyval list \<Rightarrow> (error + nat) \<times> heap" where
  "Component_call h c args =
     (case truthy_args args of
        Inl e \<Rightarrow> (Inl e, h)
      | Inr children \<Rightarrow>
          (case set_props_item (h c) ''children'' (VList children) of
             Inl e \<Rightarrow> (Inl e, h)
           | Inr ob \<Rightarrow> (Inr c, h(c := ob))))"

subsection \<open>should\_update (component.py 269-311)\<close>

datatype pyclass =
  CNone | CBool | CInt | CFloat | CStr | CList | CDict | CNp np_class | CUser string

fun py_class :: "heap \<Rightarrow> pyval \<Rightarrow> pyclass" where
  "py_class h VNone = CNone"
| "py_class h (VBool b) = CBool"
| "py_class h (VInt i) = CInt"
| "py_class h (VFloat a x) = CFloat"
| "py_class h (VStr s) = CStr"
| "py_class h (VList xs) = CList"
| "py_class h (VDict d) = CDict"
| "py_class h (VArr a c xs) = CNp c"
| "py_class h (VComp c) = CUser (cls (h c))"

fun is_Component :: "pyval \<Rightarrow> bool" where
  "is_Component (VComp c) = True"
| "is_Component v = False"

fun is_np :: "pyval \<Rightarrow> bool" where
  "is_np (VArr a c xs) = True"
| "is_np v = False"

text \<open>\<^verbatim>\<open>np.array_equal\<close>: the same shape and equal elements; a NaN is equal to no element.\<close>

fun array_equal :: "pyval \<Rightarrow> pyval \<Rightarrow> bool" where
  "array_equal (VArr a c xs) (VArr b c' ys) = (length xs = length ys \<and> list_all2 num_eq xs ys)"
| "array_equal v w = False"

text \<open>
  Python's \<^verbatim>\<open>==\<close>, truth-tested, as \<^verbatim>\<open>!=\<close> and the comparison of containers use it.
  Numbers compare by value across \<^verbatim>\<open>bool\<close>, \<^verbatim>\<open>int\<close> and \<^verbatim>\<open>float\<close>
  (\<^verbatim>\<open>True == 1\<close>, \<^verbatim>\<open>1 == 1.0\<close>).
\<close>

fun as_num :: "pyval \<Rightarrow> pynum option" where
  "as_num (VBool b) = Some (Dyadic (if b then 1 else 0) 0)"
| "as_num (VInt i) = Some (Dyadic i 0)"
| "as_num (VFloat a x) = Some x"
| "as_num v = None"

text \<open>\<^verbatim>\<open>x is y\<close>, for the values that carry an address.\<close>

fun same_object :: "pyval \<Rightarrow> pyval \<Rightarrow> bool" where
  "same_object (VFloat a x) (VFloat b y) = (a = b)"
| "same_object (VArr a c xs) (VArr b c' ys) = (a = b)"
| "same_object (VComp a) (VComp b) = (a = b)"
| "same_object v w = False"

text \<open>
  \<^verbatim>\<open>==\<close> with an array as an operand, as it arises for arrays held in a list or a
  dictionary. An \<^verbatim>\<open>ndarray\<close> or an \<^verbatim>\<open>Index\<close> compares elementwise, a number being
  broadcast as one element, and the truth test of the result raises \<^verbatim>\<open>ValueError\<close> unless
  it has exactly one element (current numpy also raises for operands of different lengths
  and for an empty result); a \<^verbatim>\<open>Series\<close> or a \<^verbatim>\<open>DataFrame\<close> has no truth value at all.
  An array against \<^verbatim>\<open>None\<close>, a string, a dictionary or a component compares unequal in
  each element. An array against a list is outside the model, which raises there; the
  properties below do not rest on it.
\<close>

fun np_operand :: "pyval \<Rightarrow> pynum list option" where
  "np_operand (VArr a Ndarray xs) = Some xs"
| "np_operand (VArr a Index xs) = Some xs"
| "np_operand (VArr a c xs) = None"
| "np_operand v = map_option (\<lambda>x. [x]) (as_num v)"

fun np_foreign :: "pyval \<Rightarrow> bool" where
  "np_foreign VNone = True"
| "np_foreign (VStr s) = True"
| "np_foreign (VDict d) = True"
| "np_foreign (VComp c) = True"
| "np_foreign v = False"

definition array_eq_truth :: "pyval \<Rightarrow> pyval \<Rightarrow> error + bool" where
  "array_eq_truth v w =
     (case (np_operand v, np_operand w) of
        (Some [x], Some [y]) \<Rightarrow> Inr (num_eq x y)
      | (Some [x], None) \<Rightarrow>
          if np_foreign w then Inr False
          else Inl (ValueError ''The truth value of an array is ambiguous'')
      | (None, Some [y]) \<Rightarrow>
          if np_foreign v then Inr False
          else Inl (ValueError ''The truth value of an array is ambiguous'')
      | _ \<Rightarrow> Inl (ValueError ''The truth value of an array is ambiguous''))"

text \<open>
  The comparison of two values that are not both lists or both dictionaries: numbers by
  value, strings by their characters, components by identity (\<^verbatim>\<open>Component\<close> defines no
  \<^verbatim>\<open>__eq__\<close>), values of different kinds are unequal.
\<close>

definition py_eq_atom :: "pyval \<Rightarrow> pyval \<Rightarrow> error + bool" where
  "py_eq_atom x y =
     (case (as_num x, as_num y) of
        (Some a, Some b) \<Rightarrow> Inr (num_eq a b)
      | _ \<Rightarrow>
          if is_np x \<or> is_np y then array_eq_truth x y
          else Inr (case (x, y) of
                      (VNone, VNone) \<Rightarrow> True
                    | (VStr s, VStr t) \<Rightarrow> s = t
                    | (VComp a, VComp b) \<Rightarrow> a = b
                    | _ \<Rightarrow> False))"

text \<open>
  Lists of different lengths are unequal; otherwise the elements are compared in order up
  to the first pair that is unequal (\<open>py_eq_list\<close>, on lists of the same length), and a
  pair of the same object counts as equal without being compared. Dictionaries of different sizes are unequal; otherwise every
  key of the first must be in the second with an equal value, compared the same way. A
  comparison of elements that raises makes the whole comparison raise.
\<close>

fun py_eq :: "pyval \<Rightarrow> pyval \<Rightarrow> error + bool"
  and py_eq_list :: "pyval list \<Rightarrow> pyval list \<Rightarrow> error + bool"
  and py_eq_dict :: "(string \<times> pyval) list \<Rightarrow> (string \<times> pyval) list \<Rightarrow> error + bool"
where
  "py_eq (VList xs) y =
     (case y of
        VList ys \<Rightarrow> if length xs \<noteq> length ys then Inr False else py_eq_list xs ys
      | _ \<Rightarrow> py_eq_atom (VList xs) y)"
| "py_eq (VDict d) y =
     (case y of
        VDict e \<Rightarrow> if length d \<noteq> length e then Inr False else py_eq_dict d e
      | _ \<Rightarrow> py_eq_atom (VDict d) y)"
| "py_eq x y = py_eq_atom x y"
| "py_eq_list [] ys = Inr True"
| "py_eq_list xs [] = Inr True"
| "py_eq_list (x # xs) (y # ys) =
     (if same_object x y then py_eq_list xs ys
      else (case py_eq x y of
              Inl e \<Rightarrow> Inl e
            | Inr b \<Rightarrow> if b then py_eq_list xs ys else Inr False))"
| "py_eq_dict [] e = Inr True"
| "py_eq_dict ((k, v) # d) e =
     (case map_of e k of
        None \<Rightarrow> Inr False
      | Some w \<Rightarrow>
          if same_object v w then py_eq_dict d e
          else (case py_eq v w of
                  Inl err \<Rightarrow> Inl err
                | Inr b \<Rightarrow> if b then py_eq_dict d e else Inr False))"

text \<open>
  \<^verbatim>\<open>should_update\<close> is a method a component class may override. The table gives, for
  a class name, the override if there is one; the call \<^verbatim>\<open>obj.should_update(...)\<close>
  dispatches on the class of the object.
\<close>

type_synonym su_method = "heap \<Rightarrow> nat \<Rightarrow> propsdict \<Rightarrow> kv \<Rightarrow> error + bool"

type_synonym su_table = "string \<Rightarrow> su_method option"

definition dispatch_should_update :: "su_table \<Rightarrow> su_method \<Rightarrow> su_method" where
  "dispatch_should_update ov dflt h c newprops newstate =
     (case ov (cls (h c)) of
        Some f \<Rightarrow> f h c newprops newstate
      | None \<Rightarrow> dflt h c newprops newstate)"

text \<open>
  \<^verbatim>\<open>should_update_helper(new_obj, old_obj)\<close>, with the method it calls on a component
  valued entry as its first argument.
\<close>

definition should_update_helper :: "su_method \<Rightarrow> heap \<Rightarrow> pyval \<Rightarrow> pyval \<Rightarrow> error + bool" where
  "should_update_helper su h new_obj old_obj =
     (if is_Component old_obj \<or> is_Component new_obj then
        (if py_class h old_obj \<noteq> py_class h new_obj then Inr True
         else (case (old_obj, new_obj) of
                 (VComp oc, VComp nc) \<Rightarrow>
                   (case Component_props (h nc) of
                      Inl e \<Rightarrow> Inl e
                    | Inr np \<Rightarrow>
                        (case su h oc np [] of
                           Inl e \<Rightarrow> Inl e
                         | Inr b \<Rightarrow> Inr b))
               | _ \<Rightarrow> Inr False))
      else if is_np old_obj \<or> is_np new_obj then
        (if py_class h old_obj \<noteq> py_class h new_obj then Inr True
         else if \<not> array_equal old_obj new_obj then Inr True
         else Inr False)
      else (case py_eq old_obj new_obj of
              Inl e \<Rightarrow> Inl e
            | Inr b \<Rightarrow> if \<not> b then Inr True else Inr False))"

text \<open>The two loops of \<^verbatim>\<open>should_update\<close>: each returns True at the first entry that differs.\<close>

fun su_props_loop :: "(pyval \<Rightarrow> pyval \<Rightarrow> error + bool) \<Rightarrow> pyobj \<Rightarrow> kv \<Rightarrow> error + bool" where
  "su_props_loop helper ob [] = Inr False"
| "su_props_loop helper ob ((prop, new_obj) # rest) =
     (case Component_props ob of
        Inl e \<Rightarrow> Inl e
      | Inr p \<Rightarrow>
          (case PropsDict_getitem p prop of
             Inl e \<Rightarrow> Inl e
           | Inr old_obj \<Rightarrow>
               (case helper new_obj old_obj of
                  Inl e \<Rightarrow> Inl e
                | Inr b \<Rightarrow> if b then Inr True else su_props_loop helper ob rest)))"

fun su_state_loop :: "(pyval \<Rightarrow> pyval \<Rightarrow> error + bool) \<Rightarrow> heap \<Rightarrow> nat \<Rightarrow> kv \<Rightarrow> error + bool" where
  "su_state_loop helper h c [] = Inr False"
| "su_state_loop helper h c ((state, new_obj) # rest) =
     (case py_getattr h c state of
        Inl e \<Rightarrow> Inl e
      | Inr old_obj \<Rightarrow>
          (case helper new_obj old_obj of
             Inl e \<Rightarrow> Inl e
           | Inr b \<Rightarrow> if b then Inr True else su_state_loop helper h c rest))"

text \<open>
  The default \<^verbatim>\<open>Component.should_update\<close>. It calls itself through the component valued
  entries; the first argument bounds the depth of these calls, and Python raises
  \<^verbatim>\<open>RecursionError\<close> at its recursion limit.
\<close>

fun should_update :: "su_table \<Rightarrow> nat \<Rightarrow> su_method" where
  "should_update ov 0 h c newprops newstate = Inl RecursionError"
| "should_update ov (Suc d) h c newprops newstate =
     (case su_props_loop
             (should_update_helper (dispatch_should_update ov (should_update ov d)) h)
             (h c) (PropsDict_items newprops) of
        Inl e \<Rightarrow> Inl e
      | Inr b \<Rightarrow>
          if b then Inr True
          else su_state_loop
                 (should_update_helper (dispatch_should_update ov (should_update ov d)) h)
                 h c newstate)"

subsection \<open>set\_state (component.py 244-267)\<close>

text \<open>
  The loop of the \<^verbatim>\<open>try\<close> block: the error that stopped it, if any, the heap and
  \<^verbatim>\<open>old_vals\<close>. Reads and writes go to the object itself (\<^verbatim>\<open>super().__getattribute__\<close>,
  \<^verbatim>\<open>super().__setattr__\<close>), the test is \<^verbatim>\<open>hasattr\<close>.
\<close>

fun set_state_loop :: "heap \<Rightarrow> nat \<Rightarrow> kv \<Rightarrow> kv \<Rightarrow> error option \<times> heap \<times> kv" where
  "set_state_loop h c [] old_vals = (None, h, old_vals)"
| "set_state_loop h c ((s, new_val) # rest) old_vals =
     (if \<not> py_hasattr h c s then (Some KeyError, h, old_vals)
      else (case object_getattribute (h c) s of
              None \<Rightarrow> (Some AttributeError, h, old_vals)
            | Some old_val \<Rightarrow>
                set_state_loop (h(c := object_setattr (h c) s new_val)) c rest
                  (AList.update s old_val old_vals)))"

text \<open>The \<^verbatim>\<open>except\<close> block: every recorded name gets its recorded value.\<close>

fun set_state_restore :: "heap \<Rightarrow> nat \<Rightarrow> kv \<Rightarrow> heap" where
  "set_state_restore h c [] = h"
| "set_state_restore h c ((s, old_val) # rest) =
     set_state_restore (h(c := object_setattr (h c) s old_val)) c rest"

text \<open>
  The controller is whatever object \<^verbatim>\<open>self._controller\<close> holds (the App, or the mocks of
  test.py); the model takes the call
  \<^verbatim>\<open>self._controller._request_rerender([self], PropsDict({}), kwargs)\<close> as a function of the
  heap that returns or raises.
\<close>

type_synonym rerender = "heap \<Rightarrow> nat \<Rightarrow> kv \<Rightarrow> (error + unit) \<times> heap"

definition set_state :: "su_table \<Rightarrow> nat \<Rightarrow> rerender \<Rightarrow> heap \<Rightarrow> nat \<Rightarrow> kv \<Rightarrow> (error + unit) \<times> heap" where
  "set_state ov d rr h c kwargs =
     (case dispatch_should_update ov (should_update ov d) h c (PropsDict []) kwargs of
        Inl e \<Rightarrow> (Inl e, h)
      | Inr su \<Rightarrow>
          (case set_state_loop h c kwargs [] of
             (Some e, h1, old_vals) \<Rightarrow> (Inl e, set_state_restore h1 c old_vals)
           | (None, h1, old_vals) \<Rightarrow>
               if su then
                 (case rr h1 c kwargs of
                    (Inl e, h2) \<Rightarrow> (Inl e, set_state_restore h2 c old_vals)
                  | (Inr u, h2) \<Rightarrow> (Inr (), h2))
               else (Inr (), h1)))"

subsection \<open>render\_changes (component.py 192-226)\<close>

text \<open>
  What the body of a \<^verbatim>\<open>with self.render_changes(...)\<close> block does to the component:
  it assigns attributes of \<^verbatim>\<open>self\<close>, raises, or opens the scope again.
\<close>

datatype action =
    Write string pyval
  | Raise error
  | Scope "string list" "action list"

fun run_body :: "su_table \<Rightarrow> nat \<Rightarrow> rerender \<Rightarrow> nat \<Rightarrow> action list \<Rightarrow> heap \<Rightarrow> (error + unit) \<times> heap"
  and run_action :: "su_table \<Rightarrow> nat \<Rightarrow> rerender \<Rightarrow> nat \<Rightarrow> action \<Rightarrow> heap \<Rightarrow> (error + unit) \<times> heap"
where
  "run_body ov d rr c [] h = (Inr (), h)"
| "run_body ov d rr c (a # rest) h =
     (case run_action ov d rr c a h of
        (Inl e, h1) \<Rightarrow> (Inl e, h1)
      | (Inr u, h1) \<Rightarrow> run_body ov d rr c rest h1)"
| "run_action ov d rr c (Write k v) h = (Inr (), py_setattr h c k v)"
| "run_action ov d rr c (Raise e) h = (Inl e, h)"
| "run_action ov d rr c (Scope ignored_variables body) h =
     (let entered = (rcc (h c) = None);
          h1 = (if entered then h(c := (h c)\<lparr>rcc := Some [], ign := set ignored_variables\<rparr>) else h)
      in case run_body ov d rr c body h1 of
           (r, h2) \<Rightarrow>
             if entered then
               (let changes_context = rcc (h2 c);
                    h3 = h2(c := (h2 c)\<lparr>rcc := None, ign := {}\<rparr>)
                in case r of
                     Inl e \<Rightarrow> (Inl e, h3)
                   | Inr u \<Rightarrow>
                       (case changes_context of
                          None \<Rightarrow> (Inl TypeError, h3)
                        | Some kwargs \<Rightarrow> set_state ov d rr h3 c kwargs))
             else (r, h2))"

definition render_changes :: "su_table \<Rightarrow> nat \<Rightarrow> rerender \<Rightarrow> nat \<Rightarrow> string list \<Rightarrow> action list \<Rightarrow> heap \<Rightarrow> (error + unit) \<times> heap" where
  "render_changes ov d rr c ignored_variables body h =
     run_action ov d rr c (Scope ignored_variables body) h"

section \<open>The engine (engine.py)\<close>

text \<open>
  The retained command tree, \<^verbatim>\<open>_QtTree\<close>: a component and the trees of its children.
  It is never written after its construction.
\<close>

datatype qt_tree = QtTree nat "qt_tree list"

fun qt_component :: "qt_tree \<Rightarrow> nat" where
  "qt_component (QtTree c ts) = c"

fun qt_children :: "qt_tree \<Rightarrow> qt_tree list" where
  "qt_children (QtTree c ts) = ts"

text \<open>
  What \<^verbatim>\<open>App._component_to_rendering\<close> holds for a component: the list of its children
  (a BaseComponent) or the component its \<^verbatim>\<open>render\<close> returned.
\<close>

datatype rendering = RList "nat list" | RComp nat

text \<open>An entry of \<^verbatim>\<open>_ChangeManager.changes\<close>: (obj, key, had\_key, old\_value, new\_value).\<close>

type_synonym change = "nat \<times> string \<times> bool \<times> pyval \<times> pyval"

text \<open>
  The state of one pass: the heap, what \<^verbatim>\<open>logging.warning\<close> has printed, the undo log
  of the storage manager, the three dictionaries of \<^verbatim>\<open>_RenderContext\<close> and the two of
  \<^verbatim>\<open>App\<close>.
\<close>

record engine =
  objs :: heap
  warnings :: "string list"
  changes :: "change list"
  need_qt_command_reissue :: "nat \<rightharpoonup> bool"
  component_to_new_props :: "nat \<rightharpoonup> propsdict"
  component_to_old_props :: "nat \<rightharpoonup> propsdict"
  component_to_rendering :: "nat \<rightharpoonup> rendering"
  component_to_qt_rendering :: "nat \<rightharpoonup> qt_tree"

subsection \<open>\_ChangeManager and \_storage\_manager (engine.py 14-45)\<close>

definition ChangeManager_set :: "engine \<Rightarrow> nat \<Rightarrow> string \<Rightarrow> pyval \<Rightarrow> engine" where
  "ChangeManager_set st obj key v =
     (let had_key = py_hasattr (objs st) obj key;
          old_value = (if had_key
                       then (case Component_getattribute (objs st obj) key of
                               Some w \<Rightarrow> w | None \<Rightarrow> VNone)
                       else VNone)
      in st\<lparr>changes := changes st @ [(obj, key, had_key, old_value, v)],
            objs := py_setattr (objs st) obj key v\<rparr>)"

definition unwind_warning :: "string \<Rightarrow> string \<Rightarrow> string" where
  "unwind_warning key classname =
     ''Error while unwinding changes: Unable to delete '' @ key @ '' from '' @ classname
       @ ''. Setting to None instead''"

fun unwind_change :: "change \<Rightarrow> engine \<Rightarrow> engine" where
  "unwind_change (obj, key, had_key, old_value, new_value) st =
     (if had_key then st\<lparr>objs := py_setattr (objs st) obj key old_value\<rparr>
      else (case object_delattr (objs st obj) key of
              Inr ob \<Rightarrow> st\<lparr>objs := (objs st)(obj := ob)\<rparr>
            | Inl e \<Rightarrow>
                st\<lparr>warnings := warnings st @ [unwind_warning key (cls (objs st obj))],
                   objs := py_setattr (objs st) obj key VNone\<rparr>))"

definition ChangeManager_unwind :: "engine \<Rightarrow> engine" where
  "ChangeManager_unwind st = fold unwind_change (rev (changes st)) st"

text \<open>
  \<^verbatim>\<open>with _storage_manager() as changes: body\<close>. The manager starts with an empty log;
  when the body raises, the log is unwound and the exception goes on to the caller.
\<close>

definition storage_manager :: "(engine \<Rightarrow> (error + 'a) \<times> engine) \<Rightarrow> engine \<Rightarrow> (error + 'a) \<times> engine" where
  "storage_manager body st =
     (case body (st\<lparr>changes := []\<rparr>) of
        (Inl e, st1) \<Rightarrow> (Inl e, ChangeManager_unwind st1)
      | (Inr x, st1) \<Rightarrow> (Inr x, st1))"

text \<open>A transaction: attribute writes through the manager, in order, and then a raise.\<close>

fun record_writes :: "(nat \<times> string \<times> pyval) list \<Rightarrow> engine \<Rightarrow> engine" where
  "record_writes [] st = st"
| "record_writes ((obj, key, v) # ws) st = record_writes ws (ChangeManager_set st obj key v)"

definition raising_transaction :: "(nat \<times> string \<times> pyval) list \<Rightarrow> error \<Rightarrow> engine \<Rightarrow> (error + unit) \<times> engine" where
  "raising_transaction ws e st = (Inl e, record_writes ws st)"

subsection \<open>\_RenderContext (engine.py 84-122)\<close>

definition mark_qt_rerender :: "engine \<Rightarrow> nat \<Rightarrow> bool \<Rightarrow> engine" where
  "mark_qt_rerender st component b =
     st\<lparr>need_qt_command_reissue := (need_qt_command_reissue st)(component \<mapsto> b)\<rparr>"

definition need_rerender :: "engine \<Rightarrow> nat \<Rightarrow> bool" where
  "need_rerender st component =
     (case need_qt_command_reissue st component of Some b \<Rightarrow> b | None \<Rightarrow> False)"

definition mark_props_change :: "engine \<Rightarrow> nat \<Rightarrow> propsdict \<Rightarrow> (error + unit) \<times> engine" where
  "mark_props_change st component newprops =
     (let d = PropsDict_items newprops;
          d1 = (if ''children'' \<notin> fst ` set d then AList.update ''children'' (VList []) d else d);
          st1 = st\<lparr>component_to_new_props := (component_to_new_props st)(component \<mapsto> newprops)\<rparr>
      in if component \<notin> dom (component_to_old_props st1) then
           (case Component_props (objs st1 component) of
              Inl e \<Rightarrow> (Inl e, st1)
            | Inr p \<Rightarrow>
                (Inr (),
                 ChangeManager_set
                   (st1\<lparr>component_to_old_props := (component_to_old_props st1)(component \<mapsto> p)\<rparr>)
                   component ''_props'' (VDict d1)))
         else (Inr (), ChangeManager_set st1 component ''_props'' (VDict d1)))"

subsection \<open>\_QtTree.gen\_qt\_commands (engine.py 59-68)\<close>

text \<open>
  \<^verbatim>\<open>_qt_update_commands\<close> belongs to the widget classes, which are not part of the
  engine: the model takes it as a function of the heap, the component, the child trees
  and the props, that returns the component's commands or raises.
\<close>

type_synonym 'cmd qt_update = "heap \<Rightarrow> nat \<Rightarrow> qt_tree list \<Rightarrow> propsdict \<Rightarrow> error + 'cmd list"

fun gen_qt_commands :: "'cmd qt_update \<Rightarrow> engine \<Rightarrow> qt_tree \<Rightarrow> error + 'cmd list"
  and gen_children :: "'cmd qt_update \<Rightarrow> engine \<Rightarrow> qt_tree list \<Rightarrow> 'cmd list \<Rightarrow> error + 'cmd list"
where
  "gen_qt_commands quc st (QtTree component children) =
     (case gen_children quc st children [] of
        Inl e \<Rightarrow> Inl e
      | Inr commands \<Rightarrow>
          if \<not> need_rerender st component then Inr commands
          else (case Component_props (objs st component) of
                  Inl e \<Rightarrow> Inl e
                | Inr p \<Rightarrow>
                    (case quc (objs st) component children p of
                       Inl e \<Rightarrow> Inl e
                     | Inr own \<Rightarrow> Inr (commands @ own))))"
| "gen_children quc st [] commands = Inr commands"
| "gen_children quc st (child # rest) commands =
     (case gen_qt_commands quc st child of
        Inl e \<Rightarrow> Inl e
      | Inr rendered \<Rightarrow> gen_children quc st rest (commands @ rendered))"

subsection \<open>Reconciliation of children (engine.py 221-292)\<close>

text \<open>Python's \<^verbatim>\<open>str(i)\<close> for an index: its decimal digits.\<close>

definition digit_char :: "nat \<Rightarrow> char" where
  "digit_char n = char_of (48 + n)"

function str_nat :: "nat \<Rightarrow> string" where
  "str_nat n = (if n < 10 then [digit_char n] else str_nat (n div 10) @ [digit_char (n mod 10)])"
  by pat_completeness auto
termination
  by (relation "measure (\<lambda>n. n)") auto

declare str_nat.simps [simp del]

text \<open>
  \<^verbatim>\<open>component.children\<close> read as the list of child components the engine iterates
  over. The empty dictionary that \<^verbatim>\<open>register_props\<close> stores has no element either.
  Children that are not components make the source fail at the first attribute it reads
  from them; the model fails when it reads the list.
\<close>

fun as_components :: "pyval list \<Rightarrow> error + nat list" where
  "as_components [] = Inr []"
| "as_components (VComp c # vs) =
     (case as_components vs of Inl e \<Rightarrow> Inl e | Inr cs \<Rightarrow> Inr (c # cs))"
| "as_components (v # vs) = Inl TypeError"

definition children_list :: "pyobj \<Rightarrow> error + nat list" where
  "children_list ob =
     (case Component_children ob of
        Inl e \<Rightarrow> Inl e
      | Inr (VList vs) \<Rightarrow> as_components vs
      | Inr (VDict []) \<Rightarrow> Inr []
      | Inr _ \<Rightarrow> Inl TypeError)"

text \<open>\<^verbatim>\<open>App._attach_keys\<close> (engine.py 240-244), the loop from index \<open>i\<close> on.\<close>

fun attach_keys_loop :: "engine \<Rightarrow> nat \<Rightarrow> nat list \<Rightarrow> engine" where
  "attach_keys_loop st i [] = st"
| "attach_keys_loop st i (child # rest) =
     (if \<not> py_hasattr (objs st) child ''_key'' then
        attach_keys_loop
          (ChangeManager_set
             (st\<lparr>warnings := warnings st @ [''Setting child key to: KEY'' @ str_nat i]\<rparr>)
             child ''_key'' (VStr (''KEY'' @ str_nat i)))
          (Suc i) rest
      else attach_keys_loop st (Suc i) rest)"

definition attach_keys :: "engine \<Rightarrow> nat \<Rightarrow> (error + unit) \<times> engine" where
  "attach_keys st component =
     (case children_list (objs st component) of
        Inl e \<Rightarrow> (Inl e, st)
      | Inr cs \<Rightarrow> (Inr (), attach_keys_loop st 0 cs))"

text \<open>
  The functions below call \<^verbatim>\<open>App._render\<close>; they take it as their first argument, and
  \<^verbatim>\<open>App_render\<close> at the end of the section ties the knot.
\<close>

type_synonym render = "nat \<Rightarrow> engine \<Rightarrow> (error + qt_tree) \<times> engine"

text \<open>\<^verbatim>\<open>App._update_old_component\<close> (engine.py 221-232).\<close>

definition update_old_component :: "render \<Rightarrow> su_table \<Rightarrow> nat \<Rightarrow> engine \<Rightarrow> nat \<Rightarrow> propsdict \<Rightarrow> (error + qt_tree) \<times> engine" where
  "update_old_component R ov d st component newprops =
     (case dispatch_should_update ov (should_update ov d) (objs st) component newprops [] of
        Inl e \<Rightarrow> (Inl e, st)
      | Inr su \<Rightarrow>
          if su then
            (case mark_props_change st component newprops of
               (Inl e, st1) \<Rightarrow> (Inl e, st1)
             | (Inr u, st1) \<Rightarrow>
                 (case R component st1 of
                    (Inl e, st2) \<Rightarrow> (Inl e, st2)
                  | (Inr rerendered_obj, st2) \<Rightarrow>
                      (Inr rerendered_obj,
                       mark_qt_rerender st2 (qt_component rerendered_obj) True)))
          else
            (case mark_props_change st component newprops of
               (Inl e, st1) \<Rightarrow> (Inl e, st1)
             | (Inr u, st1) \<Rightarrow>
                 (let st2 = mark_qt_rerender st1 component False
                  in case component_to_qt_rendering st2 component of
                       None \<Rightarrow> (Inl KeyError, st2)
                     | Some t \<Rightarrow> (Inr t, st2))))"

text \<open>
  A dictionary from keys to components, as \<^verbatim>\<open>key_to_old_child\<close> is: its entries in
  insertion order. A list, a dictionary and an array have no hash, and their use as a key
  raises \<^verbatim>\<open>TypeError\<close>. A key is found at the first entry whose key is the same object
  or equal to it, so that \<^verbatim>\<open>1\<close>, \<^verbatim>\<open>1.0\<close> and \<^verbatim>\<open>True\<close> are one key; storing under
  a key that is found replaces the component of that entry.
\<close>

type_synonym keydict = "(pyval \<times> nat) list"

fun hashable :: "pyval \<Rightarrow> bool" where
  "hashable (VList xs) = False"
| "hashable (VDict d) = False"
| "hashable (VArr a c xs) = False"
| "hashable v = True"

definition key_eq :: "pyval \<Rightarrow> pyval \<Rightarrow> bool" where
  "key_eq k k' = (same_object k k' \<or> py_eq k k' = Inr True)"

fun dict_get :: "keydict \<Rightarrow> pyval \<Rightarrow> nat option" where
  "dict_get [] k = None"
| "dict_get ((k', c) # rest) k = (if key_eq k' k then Some c else dict_get rest k)"

fun dict_set :: "keydict \<Rightarrow> pyval \<Rightarrow> nat \<Rightarrow> keydict" where
  "dict_set [] k c = [(k, c)]"
| "dict_set ((k', c') # rest) k c =
     (if key_eq k' k then (k', c) # rest else (k', c') # dict_set rest k c)"

text \<open>
  \<^verbatim>\<open>App._get_child_using_key\<close> (engine.py 234-238); \<open>dct\<close> is the dictionary
  \<^verbatim>\<open>key_to_old_child\<close>.
\<close>

definition get_child_using_key :: "render \<Rightarrow> su_table \<Rightarrow> nat \<Rightarrow> engine \<Rightarrow> keydict \<Rightarrow> pyval \<Rightarrow> nat \<Rightarrow> (error + nat) \<times> engine" where
  "get_child_using_key R ov d st dct key newchild =
     (if \<not> hashable key then (Inl TypeError, st)
      else (case dict_get dct key of
              None \<Rightarrow> (Inr newchild, st)
            | Some old \<Rightarrow>
                if cls (objs st old) \<noteq> cls (objs st newchild) then (Inr newchild, st)
                else (case Component_props (objs st newchild) of
                        Inl e \<Rightarrow> (Inl e, st)
                      | Inr np \<Rightarrow>
                          (case update_old_component R ov d st old np of
                             (Inl e, st1) \<Rightarrow> (Inl e, st1)
                           | (Inr t, st1) \<Rightarrow> (Inr old, st1)))))"

text \<open>
  \<^verbatim>\<open>{child._key: child for child in old_children}\<close>: a later child replaces an
  earlier one with the same key; a child without \<^verbatim>\<open>_key\<close> raises.
\<close>

fun key_to_old_child :: "heap \<Rightarrow> nat list \<Rightarrow> keydict \<Rightarrow> error + keydict" where
  "key_to_old_child h [] dct = Inr dct"
| "key_to_old_child h (child # rest) dct =
     (case py_getattr h child ''_key'' of
        Inl e \<Rightarrow> Inl e
      | Inr k \<Rightarrow>
          if \<not> hashable k then Inl TypeError
          else key_to_old_child h rest (dict_set dct k child))"

text \<open>
  \<^verbatim>\<open>{child: child.props for child in old_children}\<close>: the dictionary is not used
  afterwards, but reading \<^verbatim>\<open>child.props\<close> may raise.
\<close>

fun old_child_to_props :: "heap \<Rightarrow> nat list \<Rightarrow> error option" where
  "old_child_to_props h [] = None"
| "old_child_to_props h (child # rest) =
     (case Component_props (h child) of
        Inl e \<Rightarrow> Some e
      | Inr p \<Rightarrow> old_child_to_props h rest)"

text \<open>
  The comprehension of engine.py 275-276: for each new child, in order, read its
  \<^verbatim>\<open>_key\<close> and call \<^verbatim>\<open>_get_child_using_key\<close>.
\<close>

fun keyed_children :: "render \<Rightarrow> su_table \<Rightarrow> nat \<Rightarrow> keydict \<Rightarrow> engine \<Rightarrow> nat list \<Rightarrow> (error + nat list) \<times> engine" where
  "keyed_children R ov d dct st [] = (Inr [], st)"
| "keyed_children R ov d dct st (new_child # rest) =
     (case py_getattr (objs st) new_child ''_key'' of
        Inl e \<Rightarrow> (Inl e, st)
      | Inr key \<Rightarrow>
          (case get_child_using_key R ov d st dct key new_child of
             (Inl e, st1) \<Rightarrow> (Inl e, st1)
           | (Inr ch, st1) \<Rightarrow>
               (case keyed_children R ov d dct st1 rest of
                  (Inl e, st2) \<Rightarrow> (Inl e, st2)
                | (Inr chs, st2) \<Rightarrow> (Inr (ch # chs), st2))))"

text \<open>
  engine.py 269-271: a sole previous child without a key gets the key \<^verbatim>\<open>KEY0\<close>; no
  warning is logged.
\<close>

definition sole_key :: "engine \<Rightarrow> nat list \<Rightarrow> engine" where
  "sole_key st old_children =
     (case old_children of
        [old_child] \<Rightarrow>
          if \<not> py_hasattr (objs st) old_child ''_key''
          then ChangeManager_set st old_child ''_key'' (VStr ''KEY0'')
          else st
      | _ \<Rightarrow> st)"

text \<open>
  engine.py 262-276 of \<^verbatim>\<open>App._render\<close>: the list \<^verbatim>\<open>children\<close> computed from the new
  children of the component and its previous children.
\<close>

definition match_children :: "render \<Rightarrow> su_table \<Rightarrow> nat \<Rightarrow> engine \<Rightarrow> nat \<Rightarrow> nat list \<Rightarrow> (error + nat list) \<times> engine" where
  "match_children R ov d st component old_children =
     (case children_list (objs st component) of
        Inl e \<Rightarrow> (Inl e, st)
      | Inr new_children \<Rightarrow>
          (case (new_children, old_children) of
             ([new_child], [old_child]) \<Rightarrow>
               if cls (objs st new_child) = cls (objs st old_child) then
                 (case Component_props (objs st new_child) of
                    Inl e \<Rightarrow> (Inl e, st)
                  | Inr np \<Rightarrow>
                      (case update_old_component R ov d st old_child np of
                         (Inl e, st1) \<Rightarrow> (Inl e, st1)
                       | (Inr t, st1) \<Rightarrow> (Inr [old_child], st1)))
               else (Inr [new_child], st)
           | _ \<Rightarrow>
               (let st1 = sole_key st old_children
                in case key_to_old_child (objs st1) old_children [] of
                     Inl e \<Rightarrow> (Inl e, st1)
                   | Inr dct \<Rightarrow>
                       (case old_child_to_props (objs st1) old_children of
                          Some e \<Rightarrow> (Inl e, st1)
                        | None \<Rightarrow> keyed_children R ov d dct st1 new_children))))"

text \<open>
  engine.py 249-250 and 258-276: the keys are attached first when the component has more
  than one new child, and again when it had more than one child before.
\<close>

definition reconcile_children :: "render \<Rightarrow> su_table \<Rightarrow> nat \<Rightarrow> engine \<Rightarrow> nat \<Rightarrow> nat list \<Rightarrow> (error + nat list) \<times> engine" where
  "reconcile_children R ov d st component old_children =
     (case children_list (objs st component) of
        Inl e \<Rightarrow> (Inl e, st)
      | Inr cs \<Rightarrow>
          (case (if length cs > 1 then attach_keys st component else (Inr (), st)) of
             (Inl e, st1) \<Rightarrow> (Inl e, st1)
           | (Inr u, st1) \<Rightarrow>
               (case (if length old_children > 1 then attach_keys st1 component else (Inr (), st1)) of
                  (Inl e, st2) \<Rightarrow> (Inl e, st2)
                | (Inr u, st2) \<Rightarrow> match_children R ov d st2 component old_children)))"

section \<open>Notions used to state the properties\<close>

text \<open>
  What a body does, read off its text: the attribute writes it performs, in order, up to
  its first \<^verbatim>\<open>raise\<close>, and the exception it ends with, if any. A nested scope
  contributes its own writes.
\<close>

fun body_trace :: "action list \<Rightarrow> (string \<times> pyval) list \<times> error option" where
  "body_trace [] = ([], None)"
| "body_trace (Write k v # rest) = (case body_trace rest of (ws, r) \<Rightarrow> ((k, v) # ws, r))"
| "body_trace (Raise e # rest) = ([], Some e)"
| "body_trace (Scope ignored_variables body # rest) =
     (case body_trace body of
        (ws, Some e) \<Rightarrow> (ws, Some e)
      | (ws, None) \<Rightarrow> (case body_trace rest of (ws1, r) \<Rightarrow> (ws @ ws1, r)))"

text \<open>The assignments \<^verbatim>\<open>self.k = v\<close> of a list, one after the other.\<close>

fun apply_writes :: "heap \<Rightarrow> nat \<Rightarrow> (string \<times> pyval) list \<Rightarrow> heap" where
  "apply_writes h c [] = h"
| "apply_writes h c ((k, v) # ws) = apply_writes (py_setattr h c k v) c ws"

text \<open>
  The pending dictionary after a list of writes, given the ignored names: every write of
  a name that is not ignored, the last value for each name.
\<close>

fun accumulate :: "string set \<Rightarrow> (string \<times> pyval) list \<Rightarrow> kv \<Rightarrow> kv" where
  "accumulate ignored [] pending = pending"
| "accumulate ignored ((k, v) # ws) pending =
     accumulate ignored ws (if k \<in> ignored then pending else AList.update k v pending)"

text \<open>The object after the writes of the ignored names alone, made on the object itself.\<close>

fun write_through :: "string set \<Rightarrow> (string \<times> pyval) list \<Rightarrow> pyobj \<Rightarrow> pyobj" where
  "write_through ignored [] ob = ob"
| "write_through ignored ((k, v) # ws) ob =
     write_through ignored ws (if k \<in> ignored then object_setattr ob k v else ob)"

text \<open>The heap after \<^verbatim>\<open>super().__setattr__(s, kwargs[s])\<close> for every entry of kwargs.\<close>

fun apply_state :: "heap \<Rightarrow> nat \<Rightarrow> kv \<Rightarrow> heap" where
  "apply_state h c [] = h"
| "apply_state h c ((s, v) # rest) = apply_state (h(c := object_setattr (h c) s v)) c rest"

text \<open>
  The components and controllers of test.py: a component with the state \<^verbatim>\<open>foo = 1\<close>,
  \<^verbatim>\<open>bar = 2\<close>, a controller whose \<^verbatim>\<open>_request_rerender\<close> returns, and one whose
  \<^verbatim>\<open>_request_rerender\<close> raises \<^verbatim>\<open>ValueError("I am broken")\<close>. No class of the
  examples overrides \<^verbatim>\<open>should_update\<close>.
\<close>

definition mock_component :: pyobj where
  "mock_component =
     object_setattr
       (object_setattr (Component_init (new_object ''MockComponent'' False)) ''foo'' (VInt 1))
       ''bar'' (VInt 2)"

definition mock_rerender :: rerender where
  "mock_rerender h c kwargs = (Inr (), h)"

definition broken_rerender :: rerender where
  "broken_rerender h c kwargs = (Inl (ValueError ''I am broken''), h)"

definition no_overrides :: su_table where
  "no_overrides name = None"

text \<open>
  The component of test.py inside a scope opened with \<^verbatim>\<open>ignored_variables=["bar"]\<close>, after
  the assignment \<^verbatim>\<open>self.foo = 3\<close>.
\<close>

definition scoped_component :: pyobj where
  "scoped_component = mock_component\<lparr>rcc := Some [(''foo'', VInt 3)], ign := {''bar''}\<rparr>"

text \<open>
  Two objects that read the same: the same class, class attributes and scope, and the
  same instance dictionary but for names that the second holds with the value the class
  gives them anyway. The second is what an object is after a write of a class attribute
  has been undone: \<^verbatim>\<open>setattr(obj, key, old_value)\<close> leaves the old value in the instance.
\<close>

definition same_view :: "pyobj \<Rightarrow> pyobj \<Rightarrow> bool" where
  "same_view ob ob' =
     (cls ob' = cls ob \<and> base ob' = base ob \<and> cattrs ob' = cattrs ob \<and>
      rcc ob' = rcc ob \<and> ign ob' = ign ob \<and>
      (\<forall>k. attrs ob' k = attrs ob k \<or>
           (attrs ob k = None \<and> cattrs ob k \<noteq> None \<and> attrs ob' k = cattrs ob k)))"

text \<open>An engine state whose objects read as those of another, with the same warnings.\<close>

definition restored :: "engine \<Rightarrow> engine \<Rightarrow> bool" where
  "restored X st = ((\<forall>obj. same_view (objs st obj) (objs X obj)) \<and> warnings X = warnings st)"

text \<open>The state at the start of a pass over a heap: nothing logged, recorded or rendered.\<close>

definition engine_of :: "heap \<Rightarrow> engine" where
  "engine_of h =
     \<lparr>objs = h, warnings = [], changes = [], need_qt_command_reissue = Map.empty,
      component_to_new_props = Map.empty, component_to_old_props = Map.empty,
      component_to_rendering = Map.empty, component_to_qt_rendering = Map.empty\<rparr>"

text \<open>The object of test.py's StorageManagerTestCase: \<^verbatim>\<open>class A: value = 0\<close>, \<^verbatim>\<open>obj = A()\<close>.\<close>

definition class_A_instance :: pyobj where
  "class_A_instance = (new_object ''A'' False)\<lparr>cattrs := [''value'' \<mapsto> VInt 0]\<rparr>"

text \<open>The nodes of a tree in post-order: the subtrees of the children, in order, then the node.\<close>

fun postorder :: "qt_tree \<Rightarrow> qt_tree list" where
  "postorder (QtTree c ts) = concat (map postorder ts) @ [QtTree c ts]"

text \<open>
  The commands a node contributes itself: those of its component's
  \<^verbatim>\<open>_qt_update_commands\<close> when the render context maps the component to True, none
  otherwise.
\<close>

definition own_commands :: "'cmd qt_update \<Rightarrow> engine \<Rightarrow> qt_tree \<Rightarrow> error + 'cmd list" where
  "own_commands quc st t =
     (if need_rerender st (qt_component t)
      then (case Component_props (objs st (qt_component t)) of
              Inl e \<Rightarrow> Inl e
            | Inr p \<Rightarrow> quc (objs st) (qt_component t) (qt_children t) p)
      else Inr [])"

text \<open>The commands of a list of nodes, one node after the other, up to the first that raises.\<close>

fun commands_in_order :: "'cmd qt_update \<Rightarrow> engine \<Rightarrow> qt_tree list \<Rightarrow> error + 'cmd list" where
  "commands_in_order quc st [] = Inr []"
| "commands_in_order quc st (t # ts) =
     (case own_commands quc st t of
        Inl e \<Rightarrow> Inl e
      | Inr cs \<Rightarrow>
          (case commands_in_order quc st ts of
             Inl e \<Rightarrow> Inl e
           | Inr rest \<Rightarrow> Inr (cs @ rest)))"

text \<open>
  The value a component has now for a prop: \<^verbatim>\<open>self.props[prop]\<close>.
\<close>

definition current_prop :: "pyobj \<Rightarrow> string \<Rightarrow> error + pyval" where
  "current_prop ob k =
     (case Component_props ob of Inl e \<Rightarrow> Inl e | Inr p \<Rightarrow> PropsDict_getitem p k)"




text \<open>A value with no array in it.\<close>

fun array_free :: "pyval \<Rightarrow> bool" where
  "array_free (VList xs) = list_all array_free xs"
| "array_free (VDict d) = list_all (\<lambda>(k, v). array_free v) d"
| "array_free (VArr a c xs) = False"
| "array_free v = True"

text \<open>
  Two values whose comparison by \<^verbatim>\<open>should_update_helper\<close> raises nothing: two components
  of different classes, or of one class when the props of the new one can be read and the
  old one's \<^verbatim>\<open>should_update\<close> returns on them (\<open>sub\<close>, below); an array against anything
  but a component; two other values that hold no array.
\<close>

definition comparable :: "(nat \<Rightarrow> propsdict \<Rightarrow> bool) \<Rightarrow> heap \<Rightarrow> pyval \<Rightarrow> pyval \<Rightarrow> bool" where
  "comparable sub h new_obj old_obj =
     (if is_Component old_obj \<or> is_Component new_obj then
        py_class h old_obj \<noteq> py_class h new_obj \<or>
        (case (old_obj, new_obj) of
           (VComp oc, VComp nc) \<Rightarrow>
             (case Component_props (h nc) of Inl e \<Rightarrow> False | Inr np \<Rightarrow> sub oc np)
         | _ \<Rightarrow> True)
      else if is_np old_obj \<or> is_np new_obj then True
      else array_free old_obj \<and> array_free new_obj)"

text \<open>
  The entries on which \<^verbatim>\<open>should_update\<close> raises nothing within the depth given: every
  entry has a current value and is comparable with it, where the \<^verbatim>\<open>should_update\<close> of a
  component valued entry is the override of its class if that returns, and otherwise the
  default on entries that are comparable in turn, one level deeper.
\<close>

fun comparable_entries :: "su_table \<Rightarrow> nat \<Rightarrow> heap \<Rightarrow> nat \<Rightarrow> propsdict \<Rightarrow> kv \<Rightarrow> bool" where
  "comparable_entries ov 0 h c newprops newstate = False"
| "comparable_entries ov (Suc d) h c newprops newstate =
     (list_all (\<lambda>(k, v). case current_prop (h c) k of
                            Inl e \<Rightarrow> False
                          | Inr old \<Rightarrow>
                              comparable
                                (\<lambda>oc np. case ov (cls (h oc)) of
                                            Some f \<Rightarrow> \<not> isl (f h oc np [])
                                          | None \<Rightarrow> comparable_entries ov d h oc np [])
                                h v old)
        (PropsDict_items newprops) \<and>
      list_all (\<lambda>(k, v). case py_getattr h c k of
                            Inl e \<Rightarrow> False
                          | Inr old \<Rightarrow>
                              comparable
                                (\<lambda>oc np. case ov (cls (h oc)) of
                                            Some f \<Rightarrow> \<not> isl (f h oc np [])
                                          | None \<Rightarrow> comparable_entries ov d h oc np [])
                                h v old)
        newstate)"

text \<open>
  A value in which every dictionary has distinct keys, as every Python dictionary has.
\<close>

fun wf_val :: "pyval \<Rightarrow> bool" where
  "wf_val (VList xs) = list_all wf_val xs"
| "wf_val (VDict d) = (distinct (map fst d) \<and> list_all (\<lambda>(k, v). wf_val v) d)"
| "wf_val v = True"

text \<open>
  A value that is equal to itself: a float that is not NaN, an array with no NaN among
  its elements, any other value.
\<close>

fun self_equal :: "pyval \<Rightarrow> bool" where
  "self_equal (VFloat a x) = num_eq x x"
| "self_equal (VArr a c xs) = list_all (\<lambda>x. num_eq x x) xs"
| "self_equal v = wf_val v"

text \<open>
  A value that is equal to itself, where a component is taken to be so when its own props
  are (\<open>sub\<close>, below).
\<close>

definition settled :: "(nat \<Rightarrow> propsdict \<Rightarrow> bool) \<Rightarrow> heap \<Rightarrow> pyval \<Rightarrow> bool" where
  "settled sub h v =
     (case v of
        VComp c \<Rightarrow> (case Component_props (h c) of Inl e \<Rightarrow> False | Inr np \<Rightarrow> sub c np)
      | _ \<Rightarrow> self_equal v)"

text \<open>
  Every entry of newprops and newstate is the value the component has now, and that value
  is equal to itself; for a component valued entry the props of that component are in
  turn such entries, within the depth given.
\<close>

fun unchanged_entries :: "nat \<Rightarrow> heap \<Rightarrow> nat \<Rightarrow> propsdict \<Rightarrow> kv \<Rightarrow> bool" where
  "unchanged_entries 0 h c newprops newstate = False"
| "unchanged_entries (Suc d) h c newprops newstate =
     (list_all (\<lambda>(k, v). current_prop (h c) k = Inr v \<and>
                          settled (\<lambda>oc np. unchanged_entries d h oc np []) h v)
        (PropsDict_items newprops) \<and>
      list_all (\<lambda>(k, v). py_getattr h c k = Inr v \<and>
                          settled (\<lambda>oc np. unchanged_entries d h oc np []) h v)
        newstate)"





text \<open>
  The dictionary \<^verbatim>\<open>mark_props_change\<close> stores: the new props, with \<^verbatim>\<open>children = []\<close> added when they have no children.
\<close>

definition with_children :: "kv \<Rightarrow> kv" where
  "with_children d = (if ''children'' \<notin> fst ` set d then AList.update ''children'' (VList []) d else d)"

text \<open>
  The warnings of \<^verbatim>\<open>_attach_keys\<close>: one for each child without a key, in order, naming its index.
\<close>

fun missing_key_warnings :: "heap \<Rightarrow> nat \<Rightarrow> nat list \<Rightarrow> string list" where
  "missing_key_warnings h i [] = []"
| "missing_key_warnings h i (child # rest) =
     (if \<not> py_hasattr h child ''_key'' then [''Setting child key to: KEY'' @ str_nat i] else [])
       @ missing_key_warnings h (Suc i) rest"

text \<open>
  The child the comprehension of engine.py 275-276 takes for a new child: the old child
  the dictionary has for its key, when there is one and it is of the same class, and the
  new child itself otherwise.
\<close>

definition chosen_child :: "heap \<Rightarrow> keydict \<Rightarrow> nat \<Rightarrow> nat" where
  "chosen_child h dct new_child =
     (case py_getattr h new_child ''_key'' of
        Inl e \<Rightarrow> new_child
      | Inr key \<Rightarrow>
          (case dict_get dct key of
             None \<Rightarrow> new_child
           | Some old \<Rightarrow> if cls (h old) = cls (h new_child) then old else new_child))"

text \<open>
  A rendering function that leaves the class and the \<^verbatim>\<open>_key\<close> of the components of
  a set as they are: rendering a child passes over its descendants, not over its siblings.
\<close>

definition keeps_keys :: "nat set \<Rightarrow> render \<Rightarrow> bool" where
  "keeps_keys S R =
     (\<forall>c st. \<forall>o'\<in>S. cls (objs (snd (R c st)) o') = cls (objs st o') \<and>
                py_getattr (objs (snd (R c st))) o' ''_key'' = py_getattr (objs st) o' ''_key'')"

section \<open>Properties\<close>

subsection \<open>The props view is read-only\<close>

text \<open>
  C9. For every props view, key and value, a write through the view raises, whether it is
  an item assignment \<^verbatim>\<open>props[key] = value\<close> or an attribute assignment
  \<^verbatim>\<open>props.key = value\<close>; the mapping behind the view is the same after the call, so
  every read through the view returns what it returned before. No write returns normally.
\<close>

theorem PropsDict_write_raises:
  "(\<exists>e. fst (PropsDict_setitem p key v) = Inl e) \<and>
   (\<exists>e. fst (PropsDict_setattr p key v) = Inl e) \<and>
   PropsDict_d (snd (PropsDict_setitem p key v)) = PropsDict_d p \<and>
   PropsDict_d (snd (PropsDict_setattr p key v)) = PropsDict_d p \<and>
   PropsDict_getitem (snd (PropsDict_setitem p key v)) k = PropsDict_getitem p k \<and>
   PropsDict_getitem (snd (PropsDict_setattr p key v)) k = PropsDict_getitem p k \<and>
   PropsDict_items (snd (PropsDict_setitem p key v)) = PropsDict_items p \<and>
   PropsDict_items (snd (PropsDict_setattr p key v)) = PropsDict_items p"
  by (simp add: PropsDict_setitem_def PropsDict_setattr_def)

subsection \<open>The children prop\<close>

text \<open>
  C8. The constructor stores \<^verbatim>\<open>children = []\<close> when the instance has no props yet.
  \<^verbatim>\<open>register_props\<close>, given props without a \<^verbatim>\<open>children\<close> entry, stores an empty
  dictionary under \<^verbatim>\<open>children\<close>, not the empty list: the two defaults are different
  values.
\<close>

theorem register_props_children_default:
  "Component_children (Component_init (new_object ''Label'' True)) = Inr (VList []) \<and>
   Component_children (register_props (new_object ''Label'' True) [(''text'', VStr ''A'')])
     = Inr (VDict []) \<and>
   py_eq (VDict []) (VList []) = Inr False"
  by (simp add: Component_children_def Component_props_def register_props_def Component_init_def
      new_object_def Component_setattr_def Component_getattribute_def object_setattr_def
      object_getattribute_def PropsDict_getattr_def Let_def py_eq_atom_def)

lemma truthy_args_filter:
  "\<forall>a\<in>set args. \<exists>b. py_truthy a = Inr b \<Longrightarrow>
   truthy_args args = Inr (filter (\<lambda>a. py_truthy a = Inr True) args)"
  by (induction args) auto

lemma children_after_update:
  "PropsDict_getattr (PropsDict (AList.update ''children'' v d)) ''children'' = Inr v"
  by (simp add: PropsDict_getattr_def update_conv' dom_update image_iff)

lemma set_props_item_children:
  assumes "Component_props ob = Inr p"
  shows "\<exists>ob'. set_props_item ob ''children'' v = Inr ob' \<and> Component_children ob' = Inr v"
proof -
  from assms obtain d where d: "Component_getattribute ob ''_props'' = Some (VDict d)"
    by (auto simp: Component_props_def split: option.splits pyval.splits)
  show ?thesis
  proof (cases "case rcc ob of Some cc \<Rightarrow> ''_props'' \<in> fst ` set cc \<and> ''_props'' \<notin> ign ob
                | None \<Rightarrow> False")
    case True
    then obtain cc where cc: "rcc ob = Some cc" "''_props'' \<in> fst ` set cc" "''_props'' \<notin> ign ob"
      by (auto split: option.splits)
    show ?thesis using d cc True
      by (simp add: set_props_item_def Component_children_def Component_props_def
          Component_getattribute_def children_after_update update_conv' dom_update Let_def)
  next
    case False
    then have og: "object_getattribute ob ''_props'' = Some (VDict d)"
      using d by (auto simp: Component_getattribute_def split: option.splits if_splits)
    show ?thesis
    proof (cases "''_props'' \<in> dom (attrs ob)")
      case True
      with False og d show ?thesis
        by (auto simp: set_props_item_def Component_children_def Component_props_def
            Component_getattribute_def object_getattribute_def children_after_update Let_def
            split: option.splits)
    next
      case absent: False
      with False og d show ?thesis
        by (auto simp: set_props_item_def Component_children_def Component_props_def
            Component_getattribute_def object_getattribute_def children_after_update Let_def
            split: option.splits)
    qed
  qed
qed

text \<open>
  C10. For a component whose props are a dictionary, and arguments that have a truth
  value, \<^verbatim>\<open>component(*args)\<close> returns the component itself, and afterwards its
  \<^verbatim>\<open>children\<close> are the arguments that are true, in their order: \<^verbatim>\<open>None\<close>, \<^verbatim>\<open>0\<close> and
  the empty string are not among them. No other object changes.
\<close>

theorem Component_call_children:
  assumes "Component_props (h c) = Inr p"
    and "\<forall>a\<in>set args. \<exists>b. py_truthy a = Inr b"
  shows "fst (Component_call h c args) = Inr c \<and>
         Component_children (snd (Component_call h c args) c) =
           Inr (VList (filter (\<lambda>a. py_truthy a = Inr True) args)) \<and>
         VNone \<notin> set (filter (\<lambda>a. py_truthy a = Inr True) args) \<and>
         VInt 0 \<notin> set (filter (\<lambda>a. py_truthy a = Inr True) args) \<and>
         VStr [] \<notin> set (filter (\<lambda>a. py_truthy a = Inr True) args) \<and>
         (\<forall>c'. c' \<noteq> c \<longrightarrow> snd (Component_call h c args) c' = h c')"
proof -
  let ?ch = "filter (\<lambda>a. py_truthy a = Inr True) args"
  have t: "truthy_args args = Inr ?ch"
    using assms(2) by (rule truthy_args_filter)
  obtain ob' where ob': "set_props_item (h c) ''children'' (VList ?ch) = Inr ob'"
      "Component_children ob' = Inr (VList ?ch)"
    using set_props_item_children [OF assms(1)] by blast
  show ?thesis
    using t ob' by (simp add: Component_call_def)
qed

theorem Component_call_children_witness:
  "Component_props (Component_init (new_object ''View'' True))
     = Inr (PropsDict [(''children'', VList [])]) \<and>
   fst (Component_call (\<lambda>_. Component_init (new_object ''View'' True)) 0
          [VComp 1, VNone, VInt 0, VStr [], VBool False, VComp 2]) = Inr 0 \<and>
   Component_children
     (snd (Component_call (\<lambda>_. Component_init (new_object ''View'' True)) 0
             [VComp 1, VNone, VInt 0, VStr [], VBool False, VComp 2]) 0)
     = Inr (VList [VComp 1, VComp 2])"
proof -
  have p: "Component_props (Component_init (new_object ''View'' True))
             = Inr (PropsDict [(''children'', VList [])])"
    by (simp add: Component_props_def Component_init_def new_object_def Component_setattr_def
        Component_getattribute_def object_setattr_def object_getattribute_def Let_def)
  have a: "\<forall>a\<in>set [VComp 1, VNone, VInt 0, VStr [], VBool False, VComp 2].
             \<exists>b. py_truthy a = Inr b"
    by auto
  show ?thesis
    using p Component_call_children [of "\<lambda>_. Component_init (new_object ''View'' True)" 0, OF p a]
    by simp
qed

subsection \<open>Attribute writes on the object itself\<close>

lemma object_setattr_fields [simp]:
  "attrs (object_setattr ob k v) = (attrs ob)(k \<mapsto> v)"
  "cattrs (object_setattr ob k v) = cattrs ob"
  "rcc (object_setattr ob k v) = rcc ob"
  "ign (object_setattr ob k v) = ign ob"
  "cls (object_setattr ob k v) = cls ob"
  "base (object_setattr ob k v) = base ob"
  by (simp_all add: object_setattr_def)



lemma set_state_restore_other:
  "c' \<noteq> c \<Longrightarrow> set_state_restore h c ovs c' = h c'"
  by (induction ovs arbitrary: h) auto



lemma apply_state_other:
  "c' \<noteq> c \<Longrightarrow> apply_state h c kw c' = h c'"
  by (induction kw arbitrary: h) auto











lemmas ex_defs = mock_component_def mock_rerender_def broken_rerender_def no_overrides_def
  Component_init_def new_object_def Component_setattr_def Component_getattribute_def
  object_getattribute_def py_hasattr_def py_getattr_def py_setattr_def
  dispatch_should_update_def should_update_helper_def PropsDict_items_def set_state_def
  py_eq_atom_def



subsection \<open>The body of a scope\<close>

lemma write_through_fields:
  "rcc (write_through I ws ob) = rcc ob \<and> ign (write_through I ws ob) = ign ob \<and>
   cattrs (write_through I ws ob) = cattrs ob \<and> cls (write_through I ws ob) = cls ob \<and>
   base (write_through I ws ob) = base ob"
  by (induction I ws ob rule: write_through.induct) (auto simp: object_setattr_def)

lemma write_through_rcc_update:
  "write_through I ws (ob\<lparr>rcc := r\<rparr>) = (write_through I ws ob)\<lparr>rcc := r\<rparr>"
proof (induction ws arbitrary: ob)
  case Nil
  then show ?case by simp
next
  case (Cons w ws)
  obtain k v where w: "w = (k, v)" by (cases w)
  have sw: "object_setattr (ob\<lparr>rcc := r\<rparr>) k v = (object_setattr ob k v)\<lparr>rcc := r\<rparr>"
    by (simp add: object_setattr_def)
  show ?case using Cons.IH by (simp add: w sw)
qed

lemma write_through_attrs:
  "k \<notin> I \<Longrightarrow> attrs (write_through I ws ob) k = attrs ob k"
  by (induction I ws ob rule: write_through.induct) (auto simp: object_setattr_def)

lemma write_through_empty: "write_through {} ws ob = ob"
  by (induction ws) auto

lemma apply_writes_active:
  "rcc (h c) = Some p \<Longrightarrow>
   apply_writes h c ws =
     h(c := (write_through (ign (h c)) ws (h c))\<lparr>rcc := Some (accumulate (ign (h c)) ws p)\<rparr>)"
proof (induction ws arbitrary: h p)
  case Nil
  then show ?case by (auto simp: fun_eq_iff)
next
  case (Cons w ws)
  obtain k v where w: "w = (k, v)" by (cases w)
  let ?h1 = "py_setattr h c k v"
  let ?p1 = "if k \<in> ign (h c) then p else AList.update k v p"
  let ?ob1 = "if k \<in> ign (h c) then object_setattr (h c) k v else h c"
  have ob: "?h1 c = ?ob1\<lparr>rcc := Some ?p1\<rparr>"
    using Cons.prems by (simp add: py_setattr_def Component_setattr_def object_setattr_def)
  have r1: "rcc (?h1 c) = Some ?p1" and i1: "ign (?h1 c) = ign (h c)"
    by (simp_all add: ob object_setattr_def)
  have up: "\<And>x. ?h1(c := x) = h(c := x)"
    by (simp add: py_setattr_def)
  have "apply_writes h c (w # ws) = apply_writes ?h1 c ws"
    by (simp add: w)
  also have "\<dots> = ?h1(c := (write_through (ign (?h1 c)) ws (?h1 c))
                        \<lparr>rcc := Some (accumulate (ign (?h1 c)) ws ?p1)\<rparr>)"
    using Cons.IH [of ?h1 ?p1] r1 by blast
  also have "\<dots> = h(c := (write_through (ign (h c)) ws (?ob1\<lparr>rcc := Some ?p1\<rparr>))
                        \<lparr>rcc := Some (accumulate (ign (h c)) ws ?p1)\<rparr>)"
    using i1 by (simp add: up ob)
  also have "\<dots> = h(c := (write_through (ign (h c)) (w # ws) (h c))
                        \<lparr>rcc := Some (accumulate (ign (h c)) (w # ws) p)\<rparr>)"
    by (simp add: w write_through_rcc_update)
  finally show ?case .
qed

lemma apply_writes_rcc:
  "rcc (h c) \<noteq> None \<Longrightarrow> rcc (apply_writes h c ws c) \<noteq> None"
proof -
  assume "rcc (h c) \<noteq> None"
  then obtain p where "rcc (h c) = Some p" by auto
  from apply_writes_active [of h c p ws, OF this] show ?thesis by simp
qed

lemma run_action_scope_active:
  "rcc (h c) \<noteq> None \<Longrightarrow>
   run_action ov d rr c (Scope ig body) h = run_body ov d rr c body h"
proof -
  assume "rcc (h c) \<noteq> None"
  then obtain p where p: "rcc (h c) = Some p" by auto
  obtain r h2 where b: "run_body ov d rr c body h = (r, h2)"
    by (cases "run_body ov d rr c body h")
  show ?thesis by (simp add: p b)
qed

lemma apply_writes_append:
  "apply_writes h c (xs @ ys) = apply_writes (apply_writes h c xs) c ys"
  by (induction xs arbitrary: h) auto

lemma run_body_active:
  "rcc (h c) \<noteq> None \<Longrightarrow>
   run_body ov d rr c body h =
     ((case snd (body_trace body) of None \<Rightarrow> Inr () | Some e \<Rightarrow> Inl e),
      apply_writes h c (fst (body_trace body)))"
proof (induction body arbitrary: h rule: body_trace.induct)
  case 1
  then show ?case by simp
next
  case (2 k v rest)
  have "rcc (py_setattr h c k v c) \<noteq> None"
    using apply_writes_rcc [of h c "[(k, v)]"] "2.prems" by simp
  from "2.IH" [of "py_setattr h c k v"] this show ?case by (simp split: prod.splits)
next
  case (3 e rest)
  then show ?case by simp
next
  case (4 ig body rest)
  have b: "run_body ov d rr c body h =
     ((case snd (body_trace body) of None \<Rightarrow> Inr () | Some e \<Rightarrow> Inl e),
      apply_writes h c (fst (body_trace body)))"
    using "4.IH"(1) "4.prems" by simp
  have step: "run_body ov d rr c (Scope ig body # rest) h =
      (case run_body ov d rr c body h of
         (Inl e, h1) \<Rightarrow> (Inl e, h1)
       | (Inr u, h1) \<Rightarrow> run_body ov d rr c rest h1)"
    by (simp only: run_body.simps run_action_scope_active [of h c, OF "4.prems"])
  show ?case
  proof (cases "snd (body_trace body)")
    case None
    have a: "rcc (apply_writes h c (fst (body_trace body)) c) \<noteq> None"
      using apply_writes_rcc [of h c "fst (body_trace body)"] "4.prems" by simp
    obtain ws where ws: "body_trace body = (ws, None)"
      using None by (cases "body_trace body") auto
    have r: "run_body ov d rr c rest (apply_writes h c ws) =
        ((case snd (body_trace rest) of None \<Rightarrow> Inr () | Some e \<Rightarrow> Inl e),
           apply_writes (apply_writes h c ws) c (fst (body_trace rest)))"
      using "4.IH"(2) [OF ws [symmetric] refl, of "apply_writes h c ws"] a ws by simp
    show ?thesis
      unfolding step b using r ws
      by (simp add: apply_writes_append split: prod.splits)
  next
    case (Some e)
    obtain ws where ws: "body_trace body = (ws, Some e)"
      using Some by (cases "body_trace body") auto
    show ?thesis
      unfolding step b using ws by simp
  qed
qed



lemma render_changes_nested:
  assumes "rcc (h c) = Some pending"
  shows "render_changes ov d rr c ignored body h =
           ((case snd (body_trace body) of None \<Rightarrow> Inr () | Some e \<Rightarrow> Inl e),
            h(c := (write_through (ign (h c)) (fst (body_trace body)) (h c))
                     \<lparr>rcc := Some (accumulate (ign (h c)) (fst (body_trace body)) pending)\<rparr>))"
proof -
  have a: "rcc (h c) \<noteq> None" using assms by simp
  show ?thesis
    unfolding render_changes_def run_action_scope_active [of h c, OF a]
      run_body_active [of h c, OF a] apply_writes_active [of h c pending, OF assms]
    by simp
qed


text \<open>
  C7. While a scope is active on a component, a write of a name outside the ignored set
  goes to the pending dictionary and leaves the attributes of the object as they are, and
  reading the name then returns the pending value; a write of an ignored name goes to the
  object. Opening the scope again while it is active only runs the body: the arguments
  of the inner call are not used, nothing is committed or discarded when the inner block
  ends (normally or by an exception), its writes are accumulated in the pending
  dictionary of the outer scope after those already there, the scope stays active with
  the same ignored set, and the attributes outside the ignored set are untouched.
\<close>

theorem render_changes_scope_routing:
  assumes "rcc (h c) = Some pending"
  shows "(k \<notin> ign (h c) \<longrightarrow>
            rcc (py_setattr h c k v c) = Some (AList.update k v pending) \<and>
            attrs (py_setattr h c k v c) = attrs (h c) \<and>
            py_getattr (py_setattr h c k v) c k = Inr v) \<and>
         (k \<in> ign (h c) \<longrightarrow>
            rcc (py_setattr h c k v c) = Some pending \<and>
            attrs (py_setattr h c k v c) = (attrs (h c))(k \<mapsto> v)) \<and>
         render_changes ov d rr c ignored body h = run_body ov d rr c body h \<and>
         fst (render_changes ov d rr c ignored body h) =
           (case snd (body_trace body) of None \<Rightarrow> Inr () | Some e \<Rightarrow> Inl e) \<and>
         rcc (snd (render_changes ov d rr c ignored body h) c) =
           Some (accumulate (ign (h c)) (fst (body_trace body)) pending) \<and>
         ign (snd (render_changes ov d rr c ignored body h) c) = ign (h c) \<and>
         (\<forall>s. s \<notin> ign (h c) \<longrightarrow>
            attrs (snd (render_changes ov d rr c ignored body h) c) s = attrs (h c) s)"
proof -
  have a: "rcc (h c) \<noteq> None" using assms by simp
  have w1: "k \<notin> ign (h c) \<longrightarrow>
            rcc (py_setattr h c k v c) = Some (AList.update k v pending) \<and>
            attrs (py_setattr h c k v c) = attrs (h c) \<and>
            py_getattr (py_setattr h c k v) c k = Inr v"
    using assms
    by (simp add: py_setattr_def py_getattr_def Component_setattr_def Component_getattribute_def
        update_conv' dom_update)
  have w2: "k \<in> ign (h c) \<longrightarrow>
            rcc (py_setattr h c k v c) = Some pending \<and>
            attrs (py_setattr h c k v c) = (attrs (h c))(k \<mapsto> v)"
    using assms by (simp add: py_setattr_def Component_setattr_def)
  have n: "render_changes ov d rr c ignored body h = run_body ov d rr c body h"
    unfolding render_changes_def by (rule run_action_scope_active [of h c, OF a])
  note r = render_changes_nested [of h c pending ov d rr ignored body, OF assms]
  have rest: "fst (render_changes ov d rr c ignored body h) =
           (case snd (body_trace body) of None \<Rightarrow> Inr () | Some e \<Rightarrow> Inl e) \<and>
         rcc (snd (render_changes ov d rr c ignored body h) c) =
           Some (accumulate (ign (h c)) (fst (body_trace body)) pending) \<and>
         ign (snd (render_changes ov d rr c ignored body h) c) = ign (h c) \<and>
         (\<forall>s. s \<notin> ign (h c) \<longrightarrow>
            attrs (snd (render_changes ov d rr c ignored body h) c) s = attrs (h c) s)"
    by (simp add: r write_through_fields write_through_attrs)
  from w1 w2 n rest show ?thesis by blast
qed


theorem render_changes_scope_routing_witness:
  "rcc scoped_component = Some [(''foo'', VInt 3)] \<and>
   py_getattr (py_setattr (\<lambda>_. scoped_component) 0 ''foo'' (VInt 7)) 0 ''foo'' = Inr (VInt 7) \<and>
   attrs (py_setattr (\<lambda>_. scoped_component) 0 ''foo'' (VInt 7) 0) ''foo'' = Some (VInt 1) \<and>
   attrs (py_setattr (\<lambda>_. scoped_component) 0 ''bar'' (VInt 7) 0) ''bar'' = Some (VInt 7) \<and>
   fst (render_changes no_overrides (Suc 0) broken_rerender 0 [''foo'']
          [Write ''baz'' (VInt 5), Write ''foo'' (VInt 4), Raise (Raised ''ZeroDivisionError'')]
          (\<lambda>_. scoped_component)) = Inl (Raised ''ZeroDivisionError'') \<and>
   rcc (snd (render_changes no_overrides (Suc 0) broken_rerender 0 [''foo'']
          [Write ''baz'' (VInt 5), Write ''foo'' (VInt 4), Raise (Raised ''ZeroDivisionError'')]
          (\<lambda>_. scoped_component)) 0) = Some [(''foo'', VInt 4), (''baz'', VInt 5)] \<and>
   attrs (snd (render_changes no_overrides (Suc 0) broken_rerender 0 [''foo'']
          [Write ''baz'' (VInt 5), Write ''foo'' (VInt 4), Raise (Raised ''ZeroDivisionError'')]
          (\<lambda>_. scoped_component)) 0) ''foo'' = Some (VInt 1)"
proof -
  have p: "rcc ((\<lambda>_. scoped_component) (0::nat)) = Some [(''foo'', VInt 3)]"
    by (simp add: scoped_component_def)
  have i: "ign scoped_component = {''bar''}" "attrs scoped_component ''foo'' = Some (VInt 1)"
    by (simp_all add: scoped_component_def ex_defs)
  show ?thesis
    using p i
      render_changes_scope_routing [where h = "\<lambda>_. scoped_component" and c = 0
         and k = "''foo''" and v = "VInt 7", OF p]
      render_changes_scope_routing [where h = "\<lambda>_. scoped_component" and c = 0
         and k = "''bar''" and v = "VInt 7", OF p]
      render_changes_scope_routing [where h = "\<lambda>_. scoped_component" and c = 0
         and ov = no_overrides and d = "Suc 0" and rr = broken_rerender and ignored = "[''foo'']"
         and body = "[Write ''baz'' (VInt 5), Write ''foo'' (VInt 4),
                      Raise (Raised ''ZeroDivisionError'')]", OF p]
    by simp
qed








subsection \<open>The undo log of the storage manager\<close>

lemma same_view_refl: "same_view ob ob"
  by (simp add: same_view_def)

lemma same_view_attrs:
  "same_view ob ob' \<Longrightarrow>
   attrs ob' k = attrs ob k \<or> (attrs ob k = None \<and> cattrs ob k \<noteq> None \<and> attrs ob' k = cattrs ob k)"
  by (simp add: same_view_def)

lemma same_view_fields:
  "same_view ob ob' \<Longrightarrow>
   cls ob' = cls ob \<and> base ob' = base ob \<and> cattrs ob' = cattrs ob \<and> rcc ob' = rcc ob \<and>
   ign ob' = ign ob"
  by (simp add: same_view_def)

lemma same_viewI:
  "cls ob' = cls ob \<Longrightarrow> base ob' = base ob \<Longrightarrow> cattrs ob' = cattrs ob \<Longrightarrow>
   rcc ob' = rcc ob \<Longrightarrow> ign ob' = ign ob \<Longrightarrow>
   (\<And>k. attrs ob' k = attrs ob k \<or>
         (attrs ob k = None \<and> cattrs ob k \<noteq> None \<and> attrs ob' k = cattrs ob k)) \<Longrightarrow>
   same_view ob ob'"
  by (simp add: same_view_def)

lemma same_view_getattr:
  "same_view ob ob' \<Longrightarrow> object_getattribute ob' k = object_getattribute ob k"
  unfolding same_view_def object_getattribute_def
  by (metis option.case_eq_if option.simps(5) not_None_eq)

lemma same_view_Component_getattribute:
  assumes "same_view ob ob'"
  shows "Component_getattribute ob' k = Component_getattribute ob k"
proof -
  have "rcc ob' = rcc ob" "ign ob' = ign ob"
    using assms by (simp_all add: same_view_def)
  moreover have "object_getattribute ob' k = object_getattribute ob k"
    using assms by (rule same_view_getattr)
  ultimately show ?thesis
    by (simp add: Component_getattribute_def split: option.splits)
qed

lemma ChangeManager_set_plain:
  assumes "rcc (objs st obj) = None"
  shows "objs (ChangeManager_set st obj key v) = (objs st)(obj := object_setattr (objs st obj) key v)"
    and "warnings (ChangeManager_set st obj key v) = warnings st"
    and "changes (ChangeManager_set st obj key v) =
           changes st @ [(obj, key, object_getattribute (objs st obj) key \<noteq> None,
                          (case object_getattribute (objs st obj) key of Some w \<Rightarrow> w | None \<Rightarrow> VNone), v)]"
  using assms
  by (auto simp: ChangeManager_set_def Let_def py_setattr_def py_hasattr_def
      Component_setattr_def Component_getattribute_def split: option.splits)

lemma undo_one:
  assumes ns: "rcc (objs st obj) = None"
    and rel: "restored X (ChangeManager_set st obj key v)"
  shows "restored
           (unwind_change (obj, key, object_getattribute (objs st obj) key \<noteq> None,
               (case object_getattribute (objs st obj) key of Some w \<Rightarrow> w | None \<Rightarrow> VNone), v) X)
           st"
proof -
  let ?ob = "objs st obj"
  let ?ob1 = "object_setattr ?ob key v"
  have sv: "\<And>j. same_view (if j = obj then ?ob1 else objs st j) (objs X j)"
    and w: "warnings X = warnings st"
    using rel by (simp_all add: restored_def ChangeManager_set_plain [OF ns])
  have svo: "same_view ?ob1 (objs X obj)" using sv [of obj] by simp
  have rx: "rcc (objs X obj) = None" using svo ns by (simp add: same_view_def)
  have ax: "attrs (objs X obj) key = Some v"
    using same_view_attrs [OF svo, of key] by simp
  have others: "\<And>j. j \<noteq> obj \<Longrightarrow> same_view (objs st j) (objs X j)"
    using sv by (metis (full_types))
  note f = same_view_fields [OF svo, simplified]
  show ?thesis
  proof (cases "object_getattribute ?ob key")
    case None
    then have n: "attrs ?ob key = None" "cattrs ?ob key = None"
      by (auto simp: object_getattribute_def split: option.splits)
    have "same_view ?ob ((objs X obj)\<lparr>attrs := (attrs (objs X obj))(key := None)\<rparr>)"
    proof (rule same_viewI)
      fix k
      show "attrs ((objs X obj)\<lparr>attrs := (attrs (objs X obj))(key := None)\<rparr>) k = attrs ?ob k \<or>
         (attrs ?ob k = None \<and> cattrs ?ob k \<noteq> None \<and>
          attrs ((objs X obj)\<lparr>attrs := (attrs (objs X obj))(key := None)\<rparr>) k = cattrs ?ob k)"
        using same_view_attrs [OF svo, of k] n by (cases "k = key") auto
    qed (use f in simp_all)
    then show ?thesis
      using None ax w others
      by (auto simp: restored_def object_delattr_def)
  next
    case (Some old)
    have "same_view ?ob (object_setattr (objs X obj) key old)"
    proof (rule same_viewI)
      fix k
      show "attrs (object_setattr (objs X obj) key old) k = attrs ?ob k \<or>
         (attrs ?ob k = None \<and> cattrs ?ob k \<noteq> None \<and>
          attrs (object_setattr (objs X obj) key old) k = cattrs ?ob k)"
        using same_view_attrs [OF svo, of k] Some
        by (cases "k = key") (auto simp: object_getattribute_def split: option.splits)
    qed (use f in simp_all)
    then show ?thesis
      using Some w others rx
      by (auto simp: restored_def py_setattr_def Component_setattr_def)
  qed
qed

lemma record_writes_unwind:
  "\<forall>obj. rcc (objs st obj) = None \<Longrightarrow>
   \<exists>cs. changes (record_writes ws st) = changes st @ cs \<and>
        (\<forall>X. restored X (record_writes ws st) \<longrightarrow> restored (fold unwind_change (rev cs) X) st)"
proof (induction ws arbitrary: st)
  case Nil
  then show ?case by simp
next
  case (Cons w ws)
  obtain obj key v where w: "w = (obj, key, v)" by (cases w)
  let ?st1 = "ChangeManager_set st obj key v"
  let ?c1 = "(obj, key, object_getattribute (objs st obj) key \<noteq> None,
               (case object_getattribute (objs st obj) key of Some w \<Rightarrow> w | None \<Rightarrow> VNone), v)"
  have ns: "rcc (objs st obj) = None" using Cons.prems by simp
  have ns1: "\<forall>j. rcc (objs ?st1 j) = None"
    using Cons.prems by (simp add: ChangeManager_set_plain [OF ns])
  from Cons.IH [OF ns1] obtain cs where
    cs: "changes (record_writes ws ?st1) = changes ?st1 @ cs"
    and un: "\<And>X. restored X (record_writes ws ?st1) \<Longrightarrow> restored (fold unwind_change (rev cs) X) ?st1"
    by blast
  have ch: "changes (record_writes (w # ws) st) = changes st @ (?c1 # cs)"
    using cs by (simp add: w ChangeManager_set_plain [OF ns])
  have "\<forall>X. restored X (record_writes (w # ws) st) \<longrightarrow>
            restored (fold unwind_change (rev (?c1 # cs)) X) st"
  proof (intro allI impI)
    fix X assume "restored X (record_writes (w # ws) st)"
    then have "restored (fold unwind_change (rev cs) X) ?st1"
      using un [of X] by (simp add: w)
    then have "restored (unwind_change ?c1 (fold unwind_change (rev cs) X)) st"
      by (rule undo_one [OF ns])
    then show "restored (fold unwind_change (rev (?c1 # cs)) X) st" by simp
  qed
  with ch show ?case by blast
qed


text \<open>
  C2, amended. On a heap where no object has a \<^verbatim>\<open>render_changes\<close> scope active, a
  transaction that makes any sequence of attribute writes through the change manager and
  then raises ends with the exception and with every attribute of every object reading
  as before the transaction, also when a name was written several times: an attribute
  that existed has its value back, and one that did not exist is deleted from the
  object. The fallback of \<^verbatim>\<open>unwind\<close> (a warning, and the attribute set to None) is not
  taken: no warning is logged.
\<close>

theorem storage_manager_rollback:
  assumes "\<forall>obj. rcc (objs st obj) = None"
  shows "fst (storage_manager (raising_transaction ws e) st) = Inl e \<and>
         (\<forall>obj k. py_getattr (objs (snd (storage_manager (raising_transaction ws e) st))) obj k
                    = py_getattr (objs st) obj k) \<and>
         (\<forall>obj k. object_getattribute (objs st obj) k = None \<longrightarrow>
                    attrs (objs (snd (storage_manager (raising_transaction ws e) st)) obj) k = None) \<and>
         warnings (snd (storage_manager (raising_transaction ws e) st)) = warnings st"
proof -
  let ?st0 = "st\<lparr>changes := []\<rparr>"
  have ns: "\<forall>obj. rcc (objs ?st0 obj) = None" using assms by simp
  from record_writes_unwind [OF ns, of ws] obtain cs where
    cs: "changes (record_writes ws ?st0) = cs"
    and un: "\<And>X. restored X (record_writes ws ?st0) \<Longrightarrow> restored (fold unwind_change (rev cs) X) ?st0"
    by auto
  have "restored (record_writes ws ?st0) (record_writes ws ?st0)"
    by (simp add: restored_def same_view_refl)
  then have r: "restored (ChangeManager_unwind (record_writes ws ?st0)) ?st0"
    using un by (simp add: ChangeManager_unwind_def cs)
  have sm: "storage_manager (raising_transaction ws e) st
              = (Inl e, ChangeManager_unwind (record_writes ws ?st0))"
    by (simp add: storage_manager_def raising_transaction_def)
  let ?st' = "ChangeManager_unwind (record_writes ws ?st0)"
  have sv: "\<And>obj. same_view (objs st obj) (objs ?st' obj)" and w: "warnings ?st' = warnings st"
    using r by (simp_all add: restored_def)
  have g: "\<And>obj k. py_getattr (objs ?st') obj k = py_getattr (objs st) obj k"
    by (simp add: py_getattr_def same_view_Component_getattribute [OF sv])
  have a: "\<And>obj k. object_getattribute (objs st obj) k = None \<Longrightarrow> attrs (objs ?st' obj) k = None"
  proof -
    fix obj k assume "object_getattribute (objs st obj) k = None"
    then have "attrs (objs st obj) k = None" "cattrs (objs st obj) k = None"
      by (auto simp: object_getattribute_def split: option.splits)
    then show "attrs (objs ?st' obj) k = None"
      using same_view_attrs [OF sv, of obj k] by auto
  qed
  show ?thesis unfolding sm using g a w by simp
qed


theorem storage_manager_rollback_witness:
  "rcc class_A_instance = None \<and>
   fst (storage_manager
          (raising_transaction
             [(0, ''value'', VInt 1), (0, ''fresh'', VInt 5), (0, ''value'', VInt 2)]
             (ValueError []))
          (engine_of (\<lambda>_. class_A_instance))) = Inl (ValueError []) \<and>
   py_getattr (objs (snd (storage_manager
          (raising_transaction
             [(0, ''value'', VInt 1), (0, ''fresh'', VInt 5), (0, ''value'', VInt 2)]
             (ValueError []))
          (engine_of (\<lambda>_. class_A_instance))))) 0 ''value'' = Inr (VInt 0) \<and>
   attrs (objs (snd (storage_manager
          (raising_transaction
             [(0, ''value'', VInt 1), (0, ''fresh'', VInt 5), (0, ''value'', VInt 2)]
             (ValueError []))
          (engine_of (\<lambda>_. class_A_instance)))) 0) ''fresh'' = None \<and>
   warnings (snd (storage_manager
          (raising_transaction
             [(0, ''value'', VInt 1), (0, ''fresh'', VInt 5), (0, ''value'', VInt 2)]
             (ValueError []))
          (engine_of (\<lambda>_. class_A_instance)))) = []"
proof -
  have p: "\<forall>obj. rcc (objs (engine_of (\<lambda>_. class_A_instance)) obj) = None"
    by (simp add: engine_of_def class_A_instance_def new_object_def)
  have q: "rcc class_A_instance = None"
    "py_getattr (objs (engine_of (\<lambda>_. class_A_instance))) 0 ''value'' = Inr (VInt 0)"
    "object_getattribute (objs (engine_of (\<lambda>_. class_A_instance)) 0) ''fresh'' = None"
    "warnings (engine_of (\<lambda>_. class_A_instance)) = []"
    by (simp_all add: engine_of_def class_A_instance_def new_object_def py_getattr_def
        Component_getattribute_def object_getattribute_def)
  show ?thesis
    using q storage_manager_rollback [where st = "engine_of (\<lambda>_. class_A_instance)"
        and ws = "[(0, ''value'', VInt 1), (0, ''fresh'', VInt 5), (0, ''value'', VInt 2)]"
        and e = "ValueError []", OF p]
    by simp
qed


text \<open>
  C2 as stated fails for a component inside a \<^verbatim>\<open>render_changes\<close> scope. The manager's
  \<^verbatim>\<open>setattr\<close> of a new name goes to the pending dictionary, so \<^verbatim>\<open>delattr\<close> finds no
  attribute to delete and \<^verbatim>\<open>unwind\<close> takes its fallback: it logs the warning and sets
  the name to None. The name did not exist before the transaction and reads None after.
\<close>

theorem storage_manager_fallback_counterexample:
  "py_getattr (\<lambda>_. (new_object ''Label'' True)\<lparr>rcc := Some []\<rparr>) 0 ''_key'' = Inl AttributeError \<and>
   fst (storage_manager (raising_transaction [(0, ''_key'', VStr ''KEY0'')] (ValueError []))
          (engine_of (\<lambda>_. (new_object ''Label'' True)\<lparr>rcc := Some []\<rparr>))) = Inl (ValueError []) \<and>
   py_getattr
     (objs (snd (storage_manager (raising_transaction [(0, ''_key'', VStr ''KEY0'')] (ValueError []))
                   (engine_of (\<lambda>_. (new_object ''Label'' True)\<lparr>rcc := Some []\<rparr>)))))
     0 ''_key'' = Inr VNone \<and>
   warnings (snd (storage_manager (raising_transaction [(0, ''_key'', VStr ''KEY0'')] (ValueError []))
                   (engine_of (\<lambda>_. (new_object ''Label'' True)\<lparr>rcc := Some []\<rparr>))))
     = [unwind_warning ''_key'' ''Label'']"
  by (simp add: storage_manager_def raising_transaction_def engine_of_def new_object_def
      ChangeManager_set_def ChangeManager_unwind_def py_getattr_def py_setattr_def py_hasattr_def
      Component_getattribute_def Component_setattr_def object_getattribute_def
      object_delattr_def Let_def)


subsection \<open>Command emission\<close>

lemma commands_in_order_append:
  "commands_in_order quc st (xs @ ys) =
     (case commands_in_order quc st xs of
        Inl e \<Rightarrow> Inl e
      | Inr a \<Rightarrow>
          (case commands_in_order quc st ys of
             Inl e \<Rightarrow> Inl e
           | Inr b \<Rightarrow> Inr (a @ b)))"
  by (induction xs) (auto split: sum.splits)

lemma gen_postorder:
  "gen_qt_commands quc st t = commands_in_order quc st (postorder t)"
  "gen_children quc st ts acc =
     (case commands_in_order quc st (concat (map postorder ts)) of
        Inl e \<Rightarrow> Inl e
      | Inr r \<Rightarrow> Inr (acc @ r))"
proof (induction quc st t and quc st ts acc rule: gen_qt_commands_gen_children.induct)
  case (1 quc st component children)
  show ?case
    using 1
    by (auto simp: commands_in_order_append own_commands_def split: sum.splits)
next
  case (2 quc st commands)
  then show ?case by simp
next
  case (3 quc st child rest commands)
  show ?case
  proof (cases "commands_in_order quc st (postorder child)")
    case (Inl e)
    then show ?thesis using 3 by (simp add: commands_in_order_append)
  next
    case (Inr r)
    then show ?thesis using 3 by (simp add: commands_in_order_append split: sum.splits)
  qed
qed

lemma commands_in_order_unmarked:
  "\<forall>n\<in>set ns. \<not> need_rerender st (qt_component n) \<Longrightarrow> commands_in_order quc st ns = Inr []"
  by (induction ns) (auto simp: own_commands_def)

text \<open>
  C5. \<^verbatim>\<open>gen_qt_commands\<close> returns the commands of the nodes of the tree in post-order:
  for a node, the commands of the subtree of each child, in the order of the children,
  and then the node's own; it raises what the first node in that order raises. A node's
  own commands are those of \<^verbatim>\<open>_qt_update_commands\<close> if the render context maps its
  component to True, and none if the component was not marked or was marked False. A tree
  in which no component is marked True yields no command, and
  \<^verbatim>\<open>_qt_update_commands\<close> is not called.
\<close>

theorem gen_qt_commands_postorder:
  "gen_qt_commands quc st t = commands_in_order quc st (postorder t) \<and>
   postorder (QtTree c ts) = concat (map postorder ts) @ [QtTree c ts] \<and>
   (need_qt_command_reissue st c \<noteq> Some True \<longrightarrow> own_commands quc st (QtTree c ts) = Inr []) \<and>
   (need_qt_command_reissue st c = Some True \<longrightarrow>
      own_commands quc st (QtTree c ts) =
        (case Component_props (objs st c) of
           Inl e \<Rightarrow> Inl e
         | Inr p \<Rightarrow> quc (objs st) c ts p)) \<and>
   ((\<forall>n\<in>set (postorder t). need_qt_command_reissue st (qt_component n) \<noteq> Some True) \<longrightarrow>
      gen_qt_commands quc st t = Inr [])"
proof -
  have nr: "\<And>c. need_rerender st c = (need_qt_command_reissue st c = Some True)"
    by (auto simp: need_rerender_def split: option.splits)
  show ?thesis
    by (auto simp: gen_postorder(1) own_commands_def nr split: sum.splits
        intro!: commands_in_order_unmarked)
qed


theorem gen_qt_commands_postorder_witness:
  "gen_qt_commands (\<lambda>h c ts p. Inr [c])
     ((engine_of (\<lambda>_. Component_init (new_object ''View'' True)))
        \<lparr>need_qt_command_reissue := [0 \<mapsto> True, 1 \<mapsto> False, 3 \<mapsto> True]\<rparr>)
     (QtTree 0 [QtTree 1 [QtTree 3 []], QtTree 2 []]) = Inr [3, 0] \<and>
   gen_qt_commands (\<lambda>h c ts p. Inl (Raised ''unused'') :: error + nat list)
     ((engine_of (\<lambda>_. Component_init (new_object ''View'' True)))
        \<lparr>need_qt_command_reissue := [1 \<mapsto> False]\<rparr>)
     (QtTree 0 [QtTree 1 [QtTree 3 []], QtTree 2 []]) = Inr []"
proof -
  let ?st = "(engine_of (\<lambda>_. Component_init (new_object ''View'' True)))
        \<lparr>need_qt_command_reissue := [0 \<mapsto> True, 1 \<mapsto> False, 3 \<mapsto> True]\<rparr>"
  let ?st2 = "(engine_of (\<lambda>_. Component_init (new_object ''View'' True)))
        \<lparr>need_qt_command_reissue := [1 \<mapsto> False]\<rparr>"
  have p: "Component_props (Component_init (new_object ''View'' True))
             = Inr (PropsDict [(''children'', VList [])])"
    by (simp add: Component_props_def Component_init_def new_object_def Component_setattr_def
        Component_getattribute_def object_getattribute_def Let_def)
  have a: "gen_qt_commands (\<lambda>h c ts p. Inr [c]) ?st (QtTree 0 [QtTree 1 [QtTree 3 []], QtTree 2 []])
        = Inr [3, 0]"
    using gen_qt_commands_postorder [where quc = "\<lambda>h c ts p. Inr [c]" and st = ?st
        and t = "QtTree 0 [QtTree 1 [QtTree 3 []], QtTree 2 []]"]
    by (simp add: own_commands_def need_rerender_def engine_of_def p)
  have u: "\<forall>n\<in>set (postorder (QtTree 0 [QtTree 1 [QtTree 3 []], QtTree 2 []])).
             need_qt_command_reissue ?st2 (qt_component n) \<noteq> Some True"
    by simp
  have b: "gen_qt_commands (\<lambda>h c ts p. Inl (Raised ''unused'') :: error + nat list) ?st2
             (QtTree 0 [QtTree 1 [QtTree 3 []], QtTree 2 []]) = Inr []"
    using gen_qt_commands_postorder [where quc = "\<lambda>h c ts p. Inl (Raised ''unused'') :: error + nat list"
        and st = ?st2 and t = "QtTree 0 [QtTree 1 [QtTree 3 []], QtTree 2 []]"] u
    by blast
  from a b show ?thesis by simp
qed


subsection \<open>should\_update\<close>


























lemma settled_mono:
  "(\<And>c np. sub c np \<Longrightarrow> sub' c np) \<Longrightarrow> settled sub h v \<Longrightarrow> settled sub' h v"
  by (auto simp: settled_def split: pyval.splits sum.splits)

lemma comparable_mono:
  assumes m: "\<And>c np. sub c np \<Longrightarrow> sub' c np" and c: "comparable sub h v w"
  shows "comparable sub' h v w"
proof (cases "is_Component w \<or> is_Component v")
  case True
  show ?thesis
  proof (cases "py_class h w \<noteq> py_class h v")
    case d: True
    then show ?thesis using True by (simp add: comparable_def)
  next
    case False
    then obtain oc nc where v: "w = VComp oc" "v = VComp nc"
      using True by (cases w; cases v) auto
    from c False obtain np where np: "Component_props (h nc) = Inr np" "sub oc np"
      by (auto simp: comparable_def v split: sum.splits)
    from m [OF np(2)] show ?thesis using np(1) by (simp add: comparable_def v)
  qed
next
  case False
  then show ?thesis using c by (simp add: comparable_def)
qed

lemma unchanged_entries_mono:
  "unchanged_entries n h c np ns \<Longrightarrow> unchanged_entries (Suc n) h c np ns"
proof (induction n arbitrary: c np ns)
  case 0
  then show ?case by simp
next
  case (Suc n)
  let ?a = "\<lambda>oc np. unchanged_entries n h oc np []"
  let ?b = "\<lambda>oc np. unchanged_entries (Suc n) h oc np []"
  have m: "\<And>v. settled ?a h v \<Longrightarrow> settled ?b h v"
  proof -
    fix v assume s: "settled ?a h v"
    show "settled ?b h v"
    proof (rule settled_mono [OF _ s])
      fix c np assume "unchanged_entries n h c np []"
      then show "unchanged_entries (Suc n) h c np []" by (rule Suc.IH)
    qed
  qed
  from Suc.prems have
    P: "list_all (\<lambda>(k, v). current_prop (h c) k = Inr v \<and> settled ?a h v) (PropsDict_items np)"
    and Q: "list_all (\<lambda>(k, v). py_getattr h c k = Inr v \<and> settled ?a h v) ns"
    by simp_all
  have P': "list_all (\<lambda>(k, v). current_prop (h c) k = Inr v \<and> settled ?b h v) (PropsDict_items np)"
    using P m unfolding list_all_iff by blast
  have Q': "list_all (\<lambda>(k, v). py_getattr h c k = Inr v \<and> settled ?b h v) ns"
    using Q m unfolding list_all_iff by blast
  show ?case
    by (subst unchanged_entries.simps(2)) (rule conjI [OF P' Q'])
qed

lemma comparable_entries_mono:
  "comparable_entries ov n h c np ns \<Longrightarrow> comparable_entries ov (Suc n) h c np ns"
proof (induction n arbitrary: c np ns)
  case 0
  then show ?case by simp
next
  case (Suc n)
  let ?a = "\<lambda>oc np. case ov (cls (h oc)) of
                         Some f \<Rightarrow> \<not> isl (f h oc np [])
                       | None \<Rightarrow> comparable_entries ov n h oc np []"
  let ?b = "\<lambda>oc np. case ov (cls (h oc)) of
                         Some f \<Rightarrow> \<not> isl (f h oc np [])
                       | None \<Rightarrow> comparable_entries ov (Suc n) h oc np []"
  have m: "\<And>v w. comparable ?a h v w \<Longrightarrow> comparable ?b h v w"
  proof -
    fix v w assume s: "comparable ?a h v w"
    show "comparable ?b h v w"
    proof (rule comparable_mono [OF _ s])
      fix c np assume a: "?a c np"
      show "?b c np"
      proof (cases "ov (cls (h c))")
        case None
        then have "comparable_entries ov n h c np []" using a by simp
        then have "comparable_entries ov (Suc n) h c np []" by (rule Suc.IH)
        then show ?thesis unfolding None option.case .
      next
        case (Some f)
        then show ?thesis using a by simp
      qed
    qed
  qed
  from Suc.prems have
    P: "list_all (\<lambda>(k, v). case current_prop (h c) k of Inl e \<Rightarrow> False
                            | Inr old \<Rightarrow> comparable ?a h v old) (PropsDict_items np)"
    and Q: "list_all (\<lambda>(k, v). case py_getattr h c k of Inl e \<Rightarrow> False
                            | Inr old \<Rightarrow> comparable ?a h v old) ns"
    by simp_all
  have P': "list_all (\<lambda>(k, v). case current_prop (h c) k of Inl e \<Rightarrow> False
                            | Inr old \<Rightarrow> comparable ?b h v old) (PropsDict_items np)"
    using P m unfolding list_all_iff by (auto split: sum.splits)
  have Q': "list_all (\<lambda>(k, v). case py_getattr h c k of Inl e \<Rightarrow> False
                            | Inr old \<Rightarrow> comparable ?b h v old) ns"
    using Q m unfolding list_all_iff by (auto split: sum.splits)
  show ?case
    by (subst comparable_entries.simps(2)) (rule conjI [OF P' Q'])
qed












subsection \<open>Reconciliation of children\<close>

lemma getattr_setattr:
  "Component_getattribute (Component_setattr ob k v) k = Some v"
  by (auto simp: Component_getattribute_def Component_setattr_def object_getattribute_def
      update_conv' dom_update split: option.splits)

lemma getattr_setattr_other:
  "k' \<noteq> k \<Longrightarrow> Component_getattribute (Component_setattr ob k v) k' = Component_getattribute ob k'"
  by (auto simp: Component_getattribute_def Component_setattr_def object_getattribute_def
      update_conv' dom_update split: option.splits)

lemma Component_setattr_cls [simp]:
  "cls (Component_setattr ob k v) = cls ob" "base (Component_setattr ob k v) = base ob"
  by (auto simp: Component_setattr_def split: option.splits)

lemma ChangeManager_set_fields:
  "objs (ChangeManager_set st obj k v) = (objs st)(obj := Component_setattr (objs st obj) k v)"
  "warnings (ChangeManager_set st obj k v) = warnings st"
  "need_qt_command_reissue (ChangeManager_set st obj k v) = need_qt_command_reissue st"
  "component_to_qt_rendering (ChangeManager_set st obj k v) = component_to_qt_rendering st"
  "component_to_rendering (ChangeManager_set st obj k v) = component_to_rendering st"
  "component_to_new_props (ChangeManager_set st obj k v) = component_to_new_props st"
  "component_to_old_props (ChangeManager_set st obj k v) = component_to_old_props st"
  by (simp_all add: ChangeManager_set_def Let_def py_setattr_def)

lemma ChangeManager_set_getattr:
  "py_getattr (objs (ChangeManager_set st obj k v)) obj k = Inr v"
  "o' \<noteq> obj \<or> k' \<noteq> k \<Longrightarrow>
     py_getattr (objs (ChangeManager_set st obj k v)) o' k' = py_getattr (objs st) o' k'"
  "o' \<noteq> obj \<or> k' \<noteq> k \<Longrightarrow>
     py_hasattr (objs (ChangeManager_set st obj k v)) o' k' = py_hasattr (objs st) o' k'"
  "py_hasattr (objs (ChangeManager_set st obj k v)) obj k"
  "cls (objs (ChangeManager_set st obj k v) o') = cls (objs st o')"
  by (auto simp: ChangeManager_set_fields py_getattr_def py_hasattr_def getattr_setattr
      getattr_setattr_other)

lemma mark_props_change_ok:
  assumes "mark_props_change st c np = (Inr u, st1)"
  shows "Component_props (objs st1 c) = Inr (PropsDict (with_children (PropsDict_items np)))"
    and "warnings st1 = warnings st"
    and "\<And>o'. cls (objs st1 o') = cls (objs st o')"
    and "\<And>o'. py_getattr (objs st1) o' ''_key'' = py_getattr (objs st) o' ''_key''"
    and "component_to_qt_rendering st1 = component_to_qt_rendering st"
    and "need_qt_command_reissue st1 = need_qt_command_reissue st"
proof -
  let ?d1 = "with_children (PropsDict_items np)"
  let ?sta = "st\<lparr>component_to_new_props := (component_to_new_props st)(c \<mapsto> np)\<rparr>"
  have "\<exists>stb. st1 = ChangeManager_set stb c ''_props'' (VDict ?d1) \<and> objs stb = objs st \<and>
          warnings stb = warnings st \<and> component_to_qt_rendering stb = component_to_qt_rendering st
          \<and> need_qt_command_reissue stb = need_qt_command_reissue st"
    using assms
    by (auto simp: mark_props_change_def with_children_def Let_def split: if_splits sum.splits)
  then obtain stb where stb: "st1 = ChangeManager_set stb c ''_props'' (VDict ?d1)"
    "objs stb = objs st" "warnings stb = warnings st"
    "component_to_qt_rendering stb = component_to_qt_rendering st"
    "need_qt_command_reissue stb = need_qt_command_reissue st"
    by blast
  have "py_getattr (objs st1) c ''_props'' = Inr (VDict ?d1)"
    unfolding stb(1) by (rule ChangeManager_set_getattr(1))
  then show "Component_props (objs st1 c) = Inr (PropsDict ?d1)"
    by (auto simp: Component_props_def py_getattr_def split: option.splits)
  show "warnings st1 = warnings st"
    by (simp add: stb ChangeManager_set_fields)
  show "\<And>o'. cls (objs st1 o') = cls (objs st o')"
    by (simp add: stb(1) ChangeManager_set_getattr(5) stb(2))
  show "\<And>o'. py_getattr (objs st1) o' ''_key'' = py_getattr (objs st) o' ''_key''"
    using ChangeManager_set_getattr(2) [of _ c "''_key''" "''_props''" stb "VDict ?d1"]
    by (simp add: stb(1) py_getattr_def stb(2))
  show "component_to_qt_rendering st1 = component_to_qt_rendering st"
    by (simp add: stb ChangeManager_set_fields)
  show "need_qt_command_reissue st1 = need_qt_command_reissue st"
    by (simp add: stb ChangeManager_set_fields)
qed

lemma missing_key_warnings_cong:
  "\<forall>c\<in>set cs. py_hasattr h c ''_key'' = py_hasattr h' c ''_key'' \<Longrightarrow>
   missing_key_warnings h i cs = missing_key_warnings h' i cs"
  by (induction cs arbitrary: i) auto

lemma attach_keys_loop_other:
  "o' \<notin> set cs \<Longrightarrow> objs (attach_keys_loop st i cs) o' = objs st o'"
  by (induction cs arbitrary: st i) (auto simp: ChangeManager_set_fields)

lemma attach_keys_loop_cls:
  "cls (objs (attach_keys_loop st i cs) o') = cls (objs st o')"
  by (induction cs arbitrary: st i) (auto simp: ChangeManager_set_fields)

lemma attach_keys_loop_attr:
  "k \<noteq> ''_key'' \<Longrightarrow>
   Component_getattribute (objs (attach_keys_loop st i cs) o') k = Component_getattribute (objs st o') k"
  by (induction cs arbitrary: st i) (auto simp: ChangeManager_set_fields getattr_setattr_other)

lemma attach_keys_loop_maps:
  "component_to_qt_rendering (attach_keys_loop st i cs) = component_to_qt_rendering st \<and>
   need_qt_command_reissue (attach_keys_loop st i cs) = need_qt_command_reissue st \<and>
   component_to_rendering (attach_keys_loop st i cs) = component_to_rendering st"
  by (induction cs arbitrary: st i) (auto simp: ChangeManager_set_fields)

lemma attach_keys_loop_keys:
  "distinct cs \<Longrightarrow>
   (\<forall>j<length cs.
      py_getattr (objs (attach_keys_loop st i cs)) (cs ! j) ''_key'' =
        (if py_hasattr (objs st) (cs ! j) ''_key'' then py_getattr (objs st) (cs ! j) ''_key''
         else Inr (VStr (''KEY'' @ str_nat (i + j))))) \<and>
   warnings (attach_keys_loop st i cs) = warnings st @ missing_key_warnings (objs st) i cs"
proof (induction cs arbitrary: st i)
  case Nil
  then show ?case by simp
next
  case (Cons c cs)
  define st1 where "st1 =
     (if \<not> py_hasattr (objs st) c ''_key''
      then ChangeManager_set
             (st\<lparr>warnings := warnings st @ [''Setting child key to: KEY'' @ str_nat i]\<rparr>)
             c ''_key'' (VStr (''KEY'' @ str_nat i))
      else st)"
  have step: "attach_keys_loop st i (c # cs) = attach_keys_loop st1 (Suc i) cs"
    by (simp add: st1_def)
  have d: "distinct cs" and cn: "c \<notin> set cs" using Cons.prems by auto
  have same_has: "\<And>x. x \<in> set cs \<Longrightarrow> py_hasattr (objs st1) x ''_key'' = py_hasattr (objs st) x ''_key''"
  proof -
    fix x assume "x \<in> set cs"
    then have ne: "x \<noteq> c" using cn by auto
    have o: "objs st1 x = objs st x"
      using ne by (simp add: st1_def ChangeManager_set_fields)
    show "py_hasattr (objs st1) x ''_key'' = py_hasattr (objs st) x ''_key''"
      by (simp add: py_hasattr_def o)
  qed
  have same_get: "\<And>x. x \<in> set cs \<Longrightarrow> py_getattr (objs st1) x ''_key'' = py_getattr (objs st) x ''_key''"
  proof -
    fix x assume "x \<in> set cs"
    then have ne: "x \<noteq> c" using cn by auto
    have o: "objs st1 x = objs st x"
      using ne by (simp add: st1_def ChangeManager_set_fields)
    show "py_getattr (objs st1) x ''_key'' = py_getattr (objs st) x ''_key''"
      by (simp add: py_getattr_def o)
  qed
  have c1: "py_getattr (objs st1) c ''_key'' =
        (if py_hasattr (objs st) c ''_key'' then py_getattr (objs st) c ''_key''
         else Inr (VStr (''KEY'' @ str_nat i)))"
    by (simp add: st1_def ChangeManager_set_getattr(1))
  have cfin: "py_getattr (objs (attach_keys_loop st1 (Suc i) cs)) c ''_key''
                = py_getattr (objs st1) c ''_key''"
    using attach_keys_loop_other [OF cn, of st1 "Suc i"] by (simp add: py_getattr_def)
  have w1: "warnings st1 = warnings st @
       (if \<not> py_hasattr (objs st) c ''_key'' then [''Setting child key to: KEY'' @ str_nat i] else [])"
    by (simp add: st1_def ChangeManager_set_fields)
  have mk: "missing_key_warnings (objs st1) (Suc i) cs = missing_key_warnings (objs st) (Suc i) cs"
  proof (rule missing_key_warnings_cong)
    show "\<forall>c\<in>set cs. py_hasattr (objs st1) c ''_key'' = py_hasattr (objs st) c ''_key''"
      using same_has by simp
  qed
  have IHk: "\<And>j. j < length cs \<Longrightarrow>
      py_getattr (objs (attach_keys_loop st1 (Suc i) cs)) (cs ! j) ''_key'' =
        (if py_hasattr (objs st1) (cs ! j) ''_key'' then py_getattr (objs st1) (cs ! j) ''_key''
         else Inr (VStr (''KEY'' @ str_nat (Suc i + j))))"
    and IHw: "warnings (attach_keys_loop st1 (Suc i) cs)
                = warnings st1 @ missing_key_warnings (objs st1) (Suc i) cs"
    using Cons.IH [OF d, of st1 "Suc i"] by blast+
  have keys: "\<forall>j<length (c # cs).
      py_getattr (objs (attach_keys_loop st i (c # cs))) ((c # cs) ! j) ''_key'' =
        (if py_hasattr (objs st) ((c # cs) ! j) ''_key''
         then py_getattr (objs st) ((c # cs) ! j) ''_key''
         else Inr (VStr (''KEY'' @ str_nat (i + j))))"
  proof (intro allI impI)
    fix j assume j: "j < length (c # cs)"
    show "py_getattr (objs (attach_keys_loop st i (c # cs))) ((c # cs) ! j) ''_key'' =
        (if py_hasattr (objs st) ((c # cs) ! j) ''_key''
         then py_getattr (objs st) ((c # cs) ! j) ''_key''
         else Inr (VStr (''KEY'' @ str_nat (i + j))))"
    proof (cases j)
      case 0
      show ?thesis unfolding step 0 by (simp only: nth_Cons_0 cfin c1 add_0_right)
    next
      case (Suc j')
      then have j': "j' < length cs" using j by simp
      then have mem: "cs ! j' \<in> set cs" by simp
      have "py_getattr (objs (attach_keys_loop st1 (Suc i) cs)) (cs ! j') ''_key'' =
        (if py_hasattr (objs st) (cs ! j') ''_key'' then py_getattr (objs st) (cs ! j') ''_key''
         else Inr (VStr (''KEY'' @ str_nat (Suc i + j'))))"
        using IHk [OF j'] by (simp only: same_has [OF mem] same_get [OF mem])
      then show ?thesis
        unfolding step Suc by (simp only: nth_Cons_Suc add_Suc_right add_Suc)
    qed
  qed
  have "warnings (attach_keys_loop st i (c # cs)) =
          warnings st @ missing_key_warnings (objs st) i (c # cs)"
    unfolding step IHw w1 mk by simp
  with keys show ?case by (rule conjI)
qed

lemma attach_keys_loop_keeps_key:
  "py_hasattr (objs st) c ''_key'' \<Longrightarrow> py_hasattr (objs (attach_keys_loop st i cs)) c ''_key''"
proof (induction cs arbitrary: st i)
  case Nil
  then show ?case by simp
next
  case (Cons x xs)
  show ?case
  proof (cases "py_hasattr (objs st) x ''_key''")
    case True
    then show ?thesis using Cons by simp
  next
    case False
    then have "x \<noteq> c" using Cons.prems by auto
    then have "py_hasattr (objs (ChangeManager_set
                 (st\<lparr>warnings := warnings st @ [''Setting child key to: KEY'' @ str_nat i]\<rparr>)
                 x ''_key'' (VStr (''KEY'' @ str_nat i)))) c ''_key''"
      using Cons.prems by (simp add: ChangeManager_set_getattr(3))
    from Cons.IH [OF this] False show ?thesis by simp
  qed
qed

lemma attach_keys_loop_all_keyed:
  "\<forall>c\<in>set cs. py_hasattr (objs (attach_keys_loop st i cs)) c ''_key''"
proof (induction cs arbitrary: st i)
  case Nil
  then show ?case by simp
next
  case (Cons c cs)
  let ?st1 = "if \<not> py_hasattr (objs st) c ''_key''
              then ChangeManager_set
                     (st\<lparr>warnings := warnings st @ [''Setting child key to: KEY'' @ str_nat i]\<rparr>)
                     c ''_key'' (VStr (''KEY'' @ str_nat i))
              else st"
  have step: "attach_keys_loop st i (c # cs) = attach_keys_loop ?st1 (Suc i) cs"
    by simp
  have h1: "py_hasattr (objs ?st1) c ''_key''"
    by (simp add: ChangeManager_set_getattr(4))
  show ?case
    unfolding step
    using Cons.IH [of ?st1 "Suc i"] attach_keys_loop_keeps_key [OF h1, of "Suc i" cs]
    by simp
qed

lemma attach_keys_loop_idle:
  "\<forall>c\<in>set cs. py_hasattr (objs st) c ''_key'' \<Longrightarrow> attach_keys_loop st i cs = st"
  by (induction cs arbitrary: i) auto

end
